(* ===== verification/Chronos_Prelude.thy ===== *)
theory Chronos_Prelude
  imports Main "HOL-Library.Word" "HOL-Library.Signed_Division"
begin

text \<open>
  Shared vocabulary of the development: the machine integers of the Rust sources with the two
  overflow behaviours Cargo can build them with, the result type of a fallible stateful
  computation (a value, a returned error or a panic, together with the state reached), and the
  generic lemmas and rule collections the component theories use.
\<close>

named_theorems comp_simps \<open>evaluation of state computations\<close>
named_theorems arith_simps \<open>evaluation of checked machine arithmetic\<close>

section \<open>Machine integers\<close>

type_synonym u8 = "8 word"
type_synonym u16 = "16 word"
type_synonym u32 = "32 word"
type_synonym u64 = "64 word"
type_synonym i64 = "64 word"
type_synonym i128 = "128 word"

text \<open>
  Rust checks \<open>+\<close>, \<open>-\<close> and \<open>*\<close> for overflow in the \<open>dev\<close> profile and wraps them around in the
  \<open>release\<close> profile; the workspace's \<open>Cargo.toml\<close> changes neither default.  Signed words are read
  with \<^const>\<open>sint\<close>, unsigned ones with \<^const>\<open>unat\<close>.
\<close>

datatype cargo_profile = Dev | Release

definition overflow_checks :: "cargo_profile \<Rightarrow> bool" where
  "overflow_checks p \<longleftrightarrow> p = Dev"

definition uadd :: "cargo_profile \<Rightarrow> 'a::len word \<Rightarrow> 'a word \<Rightarrow> 'a word option" where
  "uadd p a b =
     (if overflow_checks p \<and> 2 ^ LENGTH('a) \<le> unat a + unat b then None else Some (a + b))"

definition usub :: "cargo_profile \<Rightarrow> 'a::len word \<Rightarrow> 'a word \<Rightarrow> 'a word option" where
  "usub p a b = (if overflow_checks p \<and> a < b then None else Some (a - b))"

definition saturating_sub :: "'a::len word \<Rightarrow> 'a word \<Rightarrow> 'a word" where
  "saturating_sub a b = (if a < b then 0 else a - b)"

definition i128_in_range :: "int \<Rightarrow> bool" where
  "i128_in_range z \<longleftrightarrow> - (2 ^ 127) \<le> z \<and> z < 2 ^ 127"

definition i128_arith :: "cargo_profile \<Rightarrow> int \<Rightarrow> i128 option" where
  "i128_arith p z =
     (if overflow_checks p \<and> \<not> i128_in_range z then None else Some (word_of_int z))"

definition i128_add :: "cargo_profile \<Rightarrow> i128 \<Rightarrow> i128 \<Rightarrow> i128 option" where
  "i128_add p a b = i128_arith p (sint a + sint b)"

definition i128_sub :: "cargo_profile \<Rightarrow> i128 \<Rightarrow> i128 \<Rightarrow> i128 option" where
  "i128_sub p a b = i128_arith p (sint a - sint b)"

definition i128_mul :: "cargo_profile \<Rightarrow> i128 \<Rightarrow> i128 \<Rightarrow> i128 option" where
  "i128_mul p a b = i128_arith p (sint a * sint b)"

text \<open>
  Signed division truncates towards zero.  It panics in both profiles on a zero divisor and on the
  one quotient that does not fit.
\<close>

definition i128_div :: "i128 \<Rightarrow> i128 \<Rightarrow> i128 option" where
  "i128_div a b =
     (if sint b = 0 \<or> \<not> i128_in_range (sint a sdiv sint b) then None
      else Some (word_of_int (sint a sdiv sint b)))"

lemma overflow_checks_simps [simp]: "overflow_checks Dev" "\<not> overflow_checks Release"
  by (simp_all add: overflow_checks_def)

lemma i128_in_range_sint [simp]: "i128_in_range (sint (a :: i128))"
  using sint_greater_eq [of a] sint_less [of a] by (simp add: i128_in_range_def)

lemma i128_range_I: "- (2 ^ 127) \<le> z \<Longrightarrow> z < 2 ^ 127 \<Longrightarrow> i128_in_range z"
  by (simp add: i128_in_range_def)

lemma sint_word_of_i128 [arith_simps]: "i128_in_range z \<Longrightarrow> sint (word_of_int z :: i128) = z"
  by (simp add: sint_sbintrunc' i128_in_range_def signed_take_bit_int_eq_self)

lemma word_of_sint: "word_of_int (sint (a :: i128)) = a"
  by simp

lemma i128_eq_iff: "(a :: i128) = b \<longleftrightarrow> sint a = sint b"
  by (simp add: word_eq_iff_signed)

lemma i128_arith_in_range [arith_simps]:
  "i128_in_range z \<Longrightarrow> i128_arith p z = Some (word_of_int z)"
  by (simp add: i128_arith_def)

lemma i128_arith_Dev: "i128_arith Dev z = Some a \<longleftrightarrow> i128_in_range z \<and> sint a = z"
  by (auto simp: i128_arith_def i128_eq_iff sint_word_of_i128)

lemma uadd_no_overflow [arith_simps]:
  "unat a + unat b < 2 ^ LENGTH('a) \<Longrightarrow> uadd p a (b :: 'a::len word) = Some (a + b)"
  by (simp add: uadd_def)

lemma uadd_Dev_Some:
  "uadd Dev a b = Some c \<longleftrightarrow> unat a + unat b < 2 ^ LENGTH('a) \<and> c = a + (b :: 'a::len word)"
  by (auto simp: uadd_def)

lemma uadd_Some_unat:
  assumes "unat a + unat b < 2 ^ LENGTH('a)"
  shows "unat (a + (b :: 'a::len word)) = unat a + unat b"
  using assms by (simp add: unat_word_ariths)

lemma usub_le [arith_simps]: "b \<le> a \<Longrightarrow> usub p a b = Some (a - b)"
  by (simp add: usub_def not_less)

lemma sdiv_pos_eq: "0 < d \<Longrightarrow> 0 \<le> x \<Longrightarrow> x sdiv d = x div (d :: int)"
  by (cases "x = 0") (auto simp: signed_divide_int_def)

lemma sdiv_neg_eq: "0 < d \<Longrightarrow> x \<le> 0 \<Longrightarrow> x sdiv d = - ((- x) div (d :: int))"
  by (cases "x = 0") (auto simp: signed_divide_int_def)

lemma sdiv_between:
  fixes x d :: int
  assumes "0 < d"
  shows "0 \<le> x \<Longrightarrow> 0 \<le> x sdiv d \<and> x sdiv d \<le> x"
    and "x \<le> 0 \<Longrightarrow> x \<le> x sdiv d \<and> x sdiv d \<le> 0"
proof -
  have le: "y div d \<le> y" "0 \<le> y div d" if "0 \<le> y" for y
    using assms that zdiv_mono2 [of y 1 d] by (simp_all add: pos_imp_zdiv_nonneg_iff)
  show "0 \<le> x \<Longrightarrow> 0 \<le> x sdiv d \<and> x sdiv d \<le> x"
    using assms le [of x] by (simp add: sdiv_pos_eq)
  show "x \<le> 0 \<Longrightarrow> x \<le> x sdiv d \<and> x sdiv d \<le> 0"
    using assms le [of "- x"] by (simp add: sdiv_neg_eq)
qed

lemma i128_in_range_sdiv:
  assumes "i128_in_range x" and "0 < d"
  shows "i128_in_range (x sdiv d)"
  using assms sdiv_between [OF assms(2), of x] by (cases "0 \<le> x") (auto simp: i128_in_range_def)

lemma unat_sub_le: "b \<le> a \<Longrightarrow> unat (a - (b :: 'a::len word)) = unat a - unat b"
  by (simp add: unat_sub)

section \<open>Fallible stateful computations\<close>

text \<open>
  A call ends with a value, with an error the callee returns, or with a panic.  The state reached
  is kept in all three cases: whether it is committed or discarded is decided by the caller (the
  host discards the effects of a contract call that does not return a value; the engine keeps
  whatever happened before a failure).
\<close>

datatype ('e, 'a) outcome = Ok 'a | Err 'e | Panic string

type_synonym ('s, 'e, 'a) comp = "'s \<Rightarrow> ('e, 'a) outcome \<times> 's"

definition return_c :: "'a \<Rightarrow> ('s, 'e, 'a) comp" where
  "return_c a = (\<lambda>s. (Ok a, s))"

definition throw_c :: "'e \<Rightarrow> ('s, 'e, 'a) comp" where
  "throw_c e = (\<lambda>s. (Err e, s))"

definition panic_c :: "string \<Rightarrow> ('s, 'e, 'a) comp" where
  "panic_c msg = (\<lambda>s. (Panic msg, s))"

definition bind_c :: "('s, 'e, 'a) comp \<Rightarrow> ('a \<Rightarrow> ('s, 'e, 'b) comp) \<Rightarrow> ('s, 'e, 'b) comp" where
  "bind_c m f = (\<lambda>s. case m s of
       (Ok a, s') \<Rightarrow> f a s'
     | (Err e, s') \<Rightarrow> (Err e, s')
     | (Panic msg, s') \<Rightarrow> (Panic msg, s'))"

definition gets_c :: "('s \<Rightarrow> 'a) \<Rightarrow> ('s, 'e, 'a) comp" where
  "gets_c f = (\<lambda>s. (Ok (f s), s))"

definition modify_c :: "('s \<Rightarrow> 's) \<Rightarrow> ('s, 'e, unit) comp" where
  "modify_c f = (\<lambda>s. (Ok (), f s))"

text \<open>\<open>unwrap_c msg x\<close> panics with \<open>msg\<close> when \<open>x\<close> is \<^const>\<open>None\<close>; \<open>ok_or_c e x\<close> returns \<open>e\<close>.\<close>

definition unwrap_c :: "string \<Rightarrow> 'a option \<Rightarrow> ('s, 'e, 'a) comp" where
  "unwrap_c msg x = (case x of None \<Rightarrow> panic_c msg | Some a \<Rightarrow> return_c a)"

definition ok_or_c :: "'e \<Rightarrow> 'a option \<Rightarrow> ('s, 'e, 'a) comp" where
  "ok_or_c e x = (case x of None \<Rightarrow> throw_c e | Some a \<Rightarrow> return_c a)"

definition unwrap_or :: "'a \<Rightarrow> 'a option \<Rightarrow> 'a" where
  "unwrap_or d x = (case x of None \<Rightarrow> d | Some a \<Rightarrow> a)"

definition skip_c :: "('s, 'e, unit) comp" where
  "skip_c = return_c ()"

abbreviation ADD_OVERFLOW :: string where "ADD_OVERFLOW \<equiv> ''attempt to add with overflow''"
abbreviation SUB_OVERFLOW :: string where "SUB_OVERFLOW \<equiv> ''attempt to subtract with overflow''"
abbreviation MUL_OVERFLOW :: string where "MUL_OVERFLOW \<equiv> ''attempt to multiply with overflow''"

lemma return_c_apply [comp_simps]: "return_c a s = (Ok a, s)"
  by (simp add: return_c_def)

lemma throw_c_apply [comp_simps]: "throw_c e s = (Err e, s)"
  by (simp add: throw_c_def)

lemma panic_c_apply [comp_simps]: "panic_c msg s = (Panic msg, s)"
  by (simp add: panic_c_def)

lemma gets_c_apply [comp_simps]: "gets_c f s = (Ok (f s), s)"
  by (simp add: gets_c_def)

lemma modify_c_apply [comp_simps]: "modify_c f s = (Ok (), f s)"
  by (simp add: modify_c_def)

lemma skip_c_apply [comp_simps]: "skip_c s = (Ok (), s)"
  by (simp add: skip_c_def return_c_def)

lemma unwrap_c_simps [comp_simps]:
  "unwrap_c msg None = panic_c msg"
  "unwrap_c msg (Some a) = return_c a"
  by (simp_all add: unwrap_c_def)

lemma unwrap_or_simps [simp]: "unwrap_or d None = d" "unwrap_or d (Some a) = a"
  by (simp_all add: unwrap_or_def)

lemma ok_or_c_simps [comp_simps]:
  "ok_or_c e None = throw_c e"
  "ok_or_c e (Some a) = return_c a"
  by (simp_all add: ok_or_c_def)

lemma bind_c_apply [comp_simps]:
  "m s = (Ok a, s') \<Longrightarrow> bind_c m f s = f a s'"
  "m s = (Err e, s') \<Longrightarrow> bind_c m f s = (Err e, s')"
  "m s = (Panic msg, s') \<Longrightarrow> bind_c m f s = (Panic msg, s')"
  by (simp_all add: bind_c_def)

lemma bind_c_prim [comp_simps]:
  "bind_c (return_c a) f = f a"
  "bind_c (throw_c e) g = throw_c e"
  "bind_c (panic_c msg) h = panic_c msg"
  "bind_c (gets_c q) k s = k (q s) s"
  "bind_c (modify_c u) l s = l () (u s)"
  "bind_c skip_c l = l ()"
  by (auto simp: bind_c_def return_c_def throw_c_def panic_c_def gets_c_def modify_c_def skip_c_def)

lemma bind_c_assoc: "bind_c (bind_c m f) g = bind_c m (\<lambda>a. bind_c (f a) g)"
  by (auto simp: bind_c_def fun_eq_iff split: prod.splits outcome.splits)

lemma bind_c_Ok_iff:
  "bind_c m f s = (Ok b, t) \<longleftrightarrow> (\<exists>a s'. m s = (Ok a, s') \<and> f a s' = (Ok b, t))"
  by (auto simp: bind_c_def split: prod.splits outcome.splits)

lemma bind_c_if [comp_simps]: "bind_c (if b then m else n) f = (if b then bind_c m f else bind_c n f)"
  by simp

lemma unwrap_c_Ok_iff: "unwrap_c msg x s = (Ok a, t) \<longleftrightarrow> x = Some a \<and> t = s"
  by (cases x) (auto simp: comp_simps)

lemma ok_or_c_Ok_iff: "ok_or_c e x s = (Ok a, t) \<longleftrightarrow> x = Some a \<and> t = s"
  by (cases x) (auto simp: comp_simps)

lemmas comp_Ok_iff = bind_c_Ok_iff unwrap_c_Ok_iff ok_or_c_Ok_iff

text \<open>\<open>try_c m\<close> hands a returned error to its continuation as a value; a panic still propagates.\<close>

definition try_c :: "('s, 'e, 'a) comp \<Rightarrow> ('s, 'f, 'e + 'a) comp" where
  "try_c m = (\<lambda>s. case m s of
       (Ok a, s') \<Rightarrow> (Ok (Inr a), s')
     | (Err e, s') \<Rightarrow> (Ok (Inl e), s')
     | (Panic msg, s') \<Rightarrow> (Panic msg, s'))"

lemma try_c_apply [comp_simps]:
  "m s = (Ok a, s') \<Longrightarrow> try_c m s = (Ok (Inr a), s')"
  "m s = (Err e, s') \<Longrightarrow> try_c m s = (Ok (Inl e), s')"
  "m s = (Panic msg, s') \<Longrightarrow> try_c m s = (Panic msg, s')"
  by (simp_all add: try_c_def)

section \<open>Decimal numbers and whitespace\<close>

text \<open>
  Strings are the bytes of their UTF-8 text.  \<open>decimal\<close> is how \<open>format!\<close> prints an unsigned
  integer, \<open>parse_uint\<close> is \<open>str::parse\<close> for the unsigned types (an optional plus sign, at least one
  digit, no overflow), and \<open>blank\<close> says that \<open>str::trim\<close> leaves nothing.
\<close>

definition byte_of :: "char \<Rightarrow> nat" where
  "byte_of c = of_char c"

definition digit_char :: "nat \<Rightarrow> char" where
  "digit_char d = char_of (48 + d)"

fun decimal :: "nat \<Rightarrow> string" where
  "decimal n = (if n < 10 then [digit_char n] else decimal (n div 10) @ [digit_char (n mod 10)])"

definition digit_value :: "char \<Rightarrow> nat option" where
  "digit_value c = (if 48 \<le> byte_of c \<and> byte_of c \<le> 57 then Some (byte_of c - 48) else None)"

fun digits_value :: "nat \<Rightarrow> string \<Rightarrow> nat option" where
  "digits_value acc [] = Some acc"
| "digits_value acc (c # cs) = (case digit_value c of
       None \<Rightarrow> None
     | Some d \<Rightarrow> digits_value (acc * 10 + d) cs)"

definition strip_plus :: "string \<Rightarrow> string" where
  "strip_plus s = (case s of c # cs \<Rightarrow> if c = CHR ''+'' then cs else s | [] \<Rightarrow> [])"

definition parse_uint :: "string \<Rightarrow> 'a::len word option" where
  "parse_uint s = (if strip_plus s = [] then None
     else (case digits_value 0 (strip_plus s) of
         None \<Rightarrow> None
       | Some n \<Rightarrow> if n < 2 ^ LENGTH('a) then Some (of_nat n) else None))"

text \<open>The UTF-8 encodings of the characters with the Unicode property White\_Space.\<close>

fun blank_bytes :: "nat list \<Rightarrow> bool" where
  "blank_bytes [] = True"
| "blank_bytes (a # bs) =
     (if a = 32 \<or> (9 \<le> a \<and> a \<le> 13) then blank_bytes bs
      else (case bs of
          b # cs \<Rightarrow>
            if a = 194 \<and> (b = 133 \<or> b = 160) then blank_bytes cs
            else (case cs of
                c # ds \<Rightarrow>
                  (a = 225 \<and> b = 154 \<and> c = 128 \<or>
                   a = 226 \<and> b = 128 \<and> (c \<le> 138 \<and> 128 \<le> c \<or> c = 168 \<or> c = 169 \<or> c = 175) \<or>
                   a = 226 \<and> b = 129 \<and> c = 159 \<or>
                   a = 227 \<and> b = 128 \<and> c = 128) \<and> blank_bytes ds
              | [] \<Rightarrow> False)
        | [] \<Rightarrow> False))"

definition blank :: "string \<Rightarrow> bool" where
  "blank s = blank_bytes (map byte_of s)"

declare decimal.simps [simp del]

lemma digit_value_char [simp]: "d < 10 \<Longrightarrow> digit_value (digit_char d) = Some d"
  by (simp add: digit_value_def digit_char_def byte_of_def)

lemma digits_value_append:
  "digits_value acc (xs @ ys) = Option.bind (digits_value acc xs) (\<lambda>a. digits_value a ys)"
  by (induction xs arbitrary: acc) (auto split: option.splits)

lemma digits_value_decimal: "digits_value 0 (decimal n) = Some n"
proof (induction n rule: decimal.induct)
  case (1 n)
  then show ?case by (subst decimal.simps) (simp add: digits_value_append)
qed

lemma decimal_start: "\<exists>d cs. decimal n = digit_char d # cs \<and> d < 10"
proof (induction n rule: decimal.induct)
  case (1 n)
  then show ?case by (cases "n < 10") (auto simp: decimal.simps [of n])
qed

lemma strip_plus_decimal: "strip_plus (decimal n) = decimal n"
proof -
  obtain d cs where "decimal n = digit_char d # cs" and "d < 10" using decimal_start by blast
  moreover from this have "digit_char d \<noteq> CHR ''+''"
    using digit_value_char [of d] by (auto simp: digit_value_def byte_of_def)
  ultimately show ?thesis by (simp add: strip_plus_def)
qed

lemma decimal_nonempty [simp]: "decimal n \<noteq> []"
  using decimal_start [of n] by auto

text \<open>Printing and parsing are inverse on the values of the type.\<close>

lemma parse_uint_decimal: "parse_uint (decimal (unat w)) = Some (w :: 'a::len word)"
  using unsigned_less [of w] by (simp add: parse_uint_def strip_plus_decimal digits_value_decimal)

end
