(* ===== verification/Chronos_Types.thy ===== *)
theory Chronos_Types
  imports Chronos_Prelude
begin

text \<open>
  The shared types of \<open>chronos-types/src/lib.rs\<close>.  A \<open>TaskId\<close> is a 32-byte identifier, kept as
  its list of bytes; an address is its strkey text, as on native targets.
\<close>

type_synonym Address = string
type_synonym KeeperAddress = Address
type_synonym TaskId = "u8 list"

record Keeper =
  address :: KeeperAddress
  stake_amount :: i128
  last_execution_ledger :: u32
  total_executions :: u64
  ineligible :: bool

record ExecutionTask =
  task_id :: TaskId
  target_drip_list :: KeeperAddress
  execution_interval_ledgers :: u32
  next_allowed_execution :: u32
  micro_reward_per_run :: i128
  designated_keeper :: KeeperAddress

end
