(* ===== verification/Anchor_Env.thy ===== *)
theory Anchor_Env
  imports Chronos_Types
begin

text \<open>
  The environment a contract call of \<open>the-anchor\<close> runs in: the storage keys of
  \<open>storage_keys.rs\<close>, the error values of \<open>errors.rs\<close>, the contract's two storage tiers, its event
  log, the ledger sequence and the authorisations of the invocation.  What the Soroban host and
  other contracts do is a parameter, the record \<open>Host\<close>: the hash function, the token contract
  behind \<open>TokenClient\<close> and the cross-contract invocation.  They act on an opaque world \<open>'w\<close>, which
  holds everything outside the contract's own storage; the host does not let a callee re-enter the
  contract, so a foreign call changes the world and nothing else of the environment.

  The locale \<open>kv_store\<close> is the contract of a storage tier, \<open>keyed_records\<close> that of a family of
  struct entries in a tier, from which \<open>record_store\<close>, the interface the registry and the task
  table offer, follows.  The predicate \<open>sep41_token\<close> states the documented behaviour of a token contract.
\<close>

section \<open>Storage keys and values\<close>

datatype DataKey =
    Keeper Address
  | Task TaskId
  | TaskCounter
  | Admin
  | MinKeeperStake
  | TreasuryBalance
  | NativeToken

datatype ScVal =
    ScKeeper Keeper
  | ScTask ExecutionTask
  | ScU32 u32
  | ScI128 i128
  | ScAddress Address
  | ScTaskId TaskId

fun as_keeper :: "ScVal \<Rightarrow> Keeper option" where
  "as_keeper (ScKeeper k) = Some k"
| "as_keeper _ = None"

fun as_task :: "ScVal \<Rightarrow> ExecutionTask option" where
  "as_task (ScTask t) = Some t"
| "as_task _ = None"

fun as_u32 :: "ScVal \<Rightarrow> u32 option" where
  "as_u32 (ScU32 n) = Some n"
| "as_u32 _ = None"

fun as_i128 :: "ScVal \<Rightarrow> i128 option" where
  "as_i128 (ScI128 n) = Some n"
| "as_i128 _ = None"

fun as_address :: "ScVal \<Rightarrow> Address option" where
  "as_address (ScAddress a) = Some a"
| "as_address _ = None"

section \<open>Contract errors\<close>

datatype ContractError =
    StakeBelowMinimum
  | KeeperAlreadyRegistered
  | KeeperNotFound
  | InvalidInterval
  | InvalidReward
  | UnauthorizedCaller
  | InvalidDripList
  | TaskNotFound
  | TooEarlyToExecute
  | UnauthorizedExecutor
  | DripListInvocationFailed
  | InsufficientRewardBalance
  | GracePeriodActive
  | GracePeriodExpired
  | CallerNotSecondaryEligible
  | SlashOnZeroStake
  | AlreadyInitialized
  | IneligibleKeeper

fun error_code :: "ContractError \<Rightarrow> u32" where
  "error_code StakeBelowMinimum = 1"
| "error_code KeeperAlreadyRegistered = 2"
| "error_code KeeperNotFound = 3"
| "error_code InvalidInterval = 4"
| "error_code InvalidReward = 5"
| "error_code UnauthorizedCaller = 6"
| "error_code InvalidDripList = 7"
| "error_code TaskNotFound = 8"
| "error_code TooEarlyToExecute = 9"
| "error_code UnauthorizedExecutor = 10"
| "error_code DripListInvocationFailed = 11"
| "error_code InsufficientRewardBalance = 12"
| "error_code GracePeriodActive = 13"
| "error_code GracePeriodExpired = 14"
| "error_code CallerNotSecondaryEligible = 15"
| "error_code SlashOnZeroStake = 16"
| "error_code AlreadyInitialized = 17"
| "error_code IneligibleKeeper = 18"

section \<open>Environment and host\<close>

record event =
  topics :: "string list"
  data :: "ScVal list"

record 'w Env =
  instance_st :: "DataKey \<rightharpoonup> ScVal"
  persistent_st :: "DataKey \<rightharpoonup> ScVal"
  events :: "event list"
  sequence :: u32
  auths :: "Address \<Rightarrow> bool"
  self_address :: Address
  world :: 'w

record 'w Host =
  profile :: cargo_profile
  sha256 :: "u8 list \<Rightarrow> TaskId"
  token_balance :: "Address \<Rightarrow> Address \<Rightarrow> 'w \<Rightarrow> i128 option"
  token_transfer :: "Address \<Rightarrow> Address \<Rightarrow> Address \<Rightarrow> i128 \<Rightarrow> 'w \<Rightarrow> 'w option"
  invoke_contract :: "Address \<Rightarrow> string \<Rightarrow> ScVal list \<Rightarrow> 'w \<Rightarrow> 'w option"

type_synonym ('w, 'a) contract = "('w Env, ContractError, 'a) comp"

definition put_instance :: "DataKey \<Rightarrow> ScVal \<Rightarrow> 'w Env \<Rightarrow> 'w Env" where
  "put_instance k v e = e\<lparr>instance_st := (instance_st e)(k \<mapsto> v)\<rparr>"

definition put_persistent :: "DataKey \<Rightarrow> ScVal \<Rightarrow> 'w Env \<Rightarrow> 'w Env" where
  "put_persistent k v e = e\<lparr>persistent_st := (persistent_st e)(k \<mapsto> v)\<rparr>"

definition instance_has :: "DataKey \<Rightarrow> ('w, bool) contract" where
  "instance_has k = gets_c (\<lambda>e. instance_st e k \<noteq> None)"

definition persistent_has :: "DataKey \<Rightarrow> ('w, bool) contract" where
  "persistent_has k = gets_c (\<lambda>e. persistent_st e k \<noteq> None)"

text \<open>A typed read panics when the entry cannot be converted to the requested type.\<close>

definition convert_entry :: "(ScVal \<Rightarrow> 'a option) \<Rightarrow> ScVal option \<Rightarrow> ('w, 'a option) contract" where
  "convert_entry conv entry = (case entry of
       None \<Rightarrow> return_c None
     | Some v \<Rightarrow> (case conv v of
           None \<Rightarrow> panic_c ''ConversionError''
         | Some a \<Rightarrow> return_c (Some a)))"

definition instance_get :: "(ScVal \<Rightarrow> 'a option) \<Rightarrow> DataKey \<Rightarrow> ('w, 'a option) contract" where
  "instance_get conv k = bind_c (gets_c (\<lambda>e. instance_st e k)) (convert_entry conv)"

definition persistent_get :: "(ScVal \<Rightarrow> 'a option) \<Rightarrow> DataKey \<Rightarrow> ('w, 'a option) contract" where
  "persistent_get conv k = bind_c (gets_c (\<lambda>e. persistent_st e k)) (convert_entry conv)"

definition instance_set :: "DataKey \<Rightarrow> ScVal \<Rightarrow> ('w, unit) contract" where
  "instance_set k v = modify_c (put_instance k v)"

definition persistent_set :: "DataKey \<Rightarrow> ScVal \<Rightarrow> ('w, unit) contract" where
  "persistent_set k v = modify_c (put_persistent k v)"

definition require_auth :: "Address \<Rightarrow> ('w, unit) contract" where
  "require_auth a = bind_c (gets_c (\<lambda>e. auths e a))
     (\<lambda>ok. if ok then skip_c else panic_c ''Error(Auth, InvalidAction)'')"

definition publish :: "string list \<Rightarrow> ScVal list \<Rightarrow> ('w, unit) contract" where
  "publish ts ds = modify_c (\<lambda>e. e\<lparr>events := events e @ [\<lparr>topics = ts, data = ds\<rparr>]\<rparr>)"

text \<open>A call into another contract or the token: the world changes, or the call traps.\<close>

definition foreign_call :: "('w \<Rightarrow> 'w option) \<Rightarrow> ('w, unit) contract" where
  "foreign_call f = bind_c (gets_c (\<lambda>e. f (world e)))
     (\<lambda>r. case r of
        None \<Rightarrow> panic_c ''Error(Context, InvalidAction)''
      | Some w \<Rightarrow> modify_c (\<lambda>e. e\<lparr>world := w\<rparr>))"

section \<open>Documented behaviour of a token contract\<close>

text \<open>
  What SEP-41 documents of \<open>transfer\<close>: it rejects negative amounts and amounts above the sender's
  balance, moves exactly the amount from one holder to the other and leaves every other holder
  alone.
\<close>

definition sep41_token ::
  "(Address \<Rightarrow> 'w \<Rightarrow> i128 option) \<Rightarrow> (Address \<Rightarrow> Address \<Rightarrow> i128 \<Rightarrow> 'w \<Rightarrow> 'w option) \<Rightarrow> bool" where
  "sep41_token bal transfer \<longleftrightarrow>
     (\<forall>a b n w w' x y. transfer a b n w = Some w' \<longrightarrow> a \<noteq> b \<longrightarrow>
        bal a w = Some x \<longrightarrow> bal b w = Some y \<longrightarrow>
          0 \<le> sint n \<and> sint n \<le> sint x \<and>
          (\<exists>x' y'. bal a w' = Some x' \<and> sint x' = sint x - sint n \<and>
                   bal b w' = Some y' \<and> sint y' = sint y + sint n)) \<and>
     (\<forall>a b c n w w'. transfer a b n w = Some w' \<longrightarrow> c \<noteq> a \<longrightarrow> c \<noteq> b \<longrightarrow> bal c w' = bal c w)"

section \<open>Evaluation of the host operations\<close>

lemma put_frames [simp]:
  "instance_st (put_persistent k v e) = instance_st e"
  "events (put_persistent k v e) = events e"
  "sequence (put_persistent k v e) = sequence e"
  "auths (put_persistent k v e) = auths e"
  "self_address (put_persistent k v e) = self_address e"
  "world (put_persistent k v e) = world e"
  "persistent_st (put_instance k v e) = persistent_st e"
  "events (put_instance k v e) = events e"
  "sequence (put_instance k v e) = sequence e"
  "auths (put_instance k v e) = auths e"
  "self_address (put_instance k v e) = self_address e"
  "world (put_instance k v e) = world e"
  by (simp_all add: put_persistent_def put_instance_def)

lemma convert_entry_apply [comp_simps]:
  "convert_entry conv None = return_c None"
  "conv v = Some a \<Longrightarrow> convert_entry conv (Some v) = return_c (Some a)"
  "conv v = None \<Longrightarrow> convert_entry conv (Some v) = panic_c ''ConversionError''"
  by (simp_all add: convert_entry_def)

lemma convert_entry_Ok_iff:
  "convert_entry conv x e = (Ok r, e') \<longleftrightarrow>
     e' = e \<and> (case x of None \<Rightarrow> r = None | Some v \<Rightarrow> conv v \<noteq> None \<and> r = conv v)"
  by (auto simp: convert_entry_def comp_simps split: option.splits)

lemma storage_ops_apply [comp_simps]:
  "instance_has k e = (Ok (instance_st e k \<noteq> None), e)"
  "persistent_has k e = (Ok (persistent_st e k \<noteq> None), e)"
  "instance_set k v e = (Ok (), put_instance k v e)"
  "persistent_set k v e = (Ok (), put_persistent k v e)"
  by (simp_all add: instance_has_def persistent_has_def instance_set_def persistent_set_def comp_simps)

lemma storage_get_apply:
  "instance_get conv k e = convert_entry conv (instance_st e k) e"
  "persistent_get conv k e = convert_entry conv (persistent_st e k) e"
  by (simp_all add: instance_get_def persistent_get_def comp_simps)

lemma require_auth_apply [comp_simps]:
  "auths e a \<Longrightarrow> require_auth a e = (Ok (), e)"
  "\<not> auths e a \<Longrightarrow> require_auth a e = (Panic ''Error(Auth, InvalidAction)'', e)"
  by (simp_all add: require_auth_def comp_simps)

lemma require_auth_Ok_iff: "require_auth a e = (Ok u, e') \<longleftrightarrow> auths e a \<and> e' = e"
  by (auto simp: require_auth_def comp_simps)

lemma publish_apply [comp_simps]:
  "publish ts ds e = (Ok (), e\<lparr>events := events e @ [\<lparr>topics = ts, data = ds\<rparr>]\<rparr>)"
  by (simp add: publish_def comp_simps)

lemma foreign_call_apply [comp_simps]:
  "f (world e) = Some w \<Longrightarrow> foreign_call f e = (Ok (), e\<lparr>world := w\<rparr>)"
  "f (world e) = None \<Longrightarrow> foreign_call f e = (Panic ''Error(Context, InvalidAction)'', e)"
  by (simp_all add: foreign_call_def comp_simps)

lemma foreign_call_Ok_iff:
  "foreign_call f e = (Ok u, e') \<longleftrightarrow> (\<exists>w. f (world e) = Some w \<and> e' = e\<lparr>world := w\<rparr>)"
  by (auto simp: foreign_call_def comp_simps split: option.splits)

lemmas host_Ok_iff = convert_entry_Ok_iff require_auth_Ok_iff foreign_call_Ok_iff

section \<open>Storage contracts\<close>

locale kv_store =
  fixes lookup :: "'s \<Rightarrow> 'k \<Rightarrow> 'v option"
    and store :: "'k \<Rightarrow> 'v \<Rightarrow> 's \<Rightarrow> 's"
  assumes lookup_store: "lookup (store k v s) k' = (if k' = k then Some v else lookup s k')"
begin

lemma dom_store: "dom (lookup (store k v s)) = insert k (dom (lookup s))"
  by (auto simp: lookup_store dom_def)

lemma store_twice: "lookup (store k v (store k v' s)) = lookup (store k v s)"
  by (auto simp: lookup_store fun_eq_iff)

lemma store_commute:
  "k \<noteq> l \<Longrightarrow> lookup (store k v (store l u s)) = lookup (store l u (store k v s))"
  by (auto simp: lookup_store fun_eq_iff)

end

text \<open>Every stored record carries its own key.\<close>

definition self_keyed :: "('s \<Rightarrow> 'i \<Rightarrow> 'r option) \<Rightarrow> ('r \<Rightarrow> 'i) \<Rightarrow> 's \<Rightarrow> bool" where
  "self_keyed get ident s \<longleftrightarrow> (\<forall>i r. get s i = Some r \<longrightarrow> ident r = i)"

locale record_store =
  fixes get :: "'s \<Rightarrow> 'i \<Rightarrow> 'r option"
    and put :: "'r \<Rightarrow> 's \<Rightarrow> 's"
    and ident :: "'r \<Rightarrow> 'i"
  assumes get_put: "get (put r s) i = (if i = ident r then Some r else get s i)"
begin

lemma put_self_keyed: "self_keyed get ident s \<Longrightarrow> self_keyed get ident (put r s)"
  by (auto simp: self_keyed_def get_put)

lemma put_keeps_entries: "get s i \<noteq> None \<Longrightarrow> get (put r s) i \<noteq> None"
  by (simp add: get_put)

text \<open>Reading an entry, changing fields other than its key and writing it back hits that entry.\<close>

lemma read_modify_write:
  assumes "self_keyed get ident s" and "get s i = Some r" and "ident (f r) = ident r"
  shows "get (put (f r) s) j = (if j = i then Some (f r) else get s j)"
  using assms by (auto simp: self_keyed_def get_put)

end

locale keyed_records = kv_store lookup store
  for lookup :: "'s \<Rightarrow> 'k \<Rightarrow> 'v option" and store :: "'k \<Rightarrow> 'v \<Rightarrow> 's \<Rightarrow> 's" +
  fixes mk_key :: "'i \<Rightarrow> 'k"
    and wrap :: "'r \<Rightarrow> 'v"
    and unwrap :: "'v \<Rightarrow> 'r option"
    and ident :: "'r \<Rightarrow> 'i"
  assumes mk_key_inj: "mk_key i = mk_key j \<longleftrightarrow> i = j"
    and unwrap_wrap: "unwrap (wrap r) = Some r"
begin

sublocale recs: record_store "\<lambda>s i. Option.bind (lookup s (mk_key i)) unwrap"
  "\<lambda>r s. store (mk_key (ident r)) (wrap r) s" ident
  by unfold_locales (simp add: lookup_store mk_key_inj unwrap_wrap)

lemma put_other_key:
  "(\<And>i. k \<noteq> mk_key i) \<Longrightarrow> lookup (store (mk_key (ident r)) (wrap r) s) k = lookup s k"
  by (simp add: lookup_store)

end

interpretation instance_tier: kv_store instance_st put_instance
  by unfold_locales (simp add: put_instance_def)

interpretation persistent_tier: kv_store persistent_st put_persistent
  by unfold_locales (simp add: put_persistent_def)

lemmas tier_simps = instance_tier.lookup_store persistent_tier.lookup_store

section \<open>Well-typed storage\<close>

text \<open>
  Each key lives in the tier \<open>storage_keys.rs\<close> assigns to it and holds a value of its type; a
  struct entry carries the key it is stored under.
\<close>

fun persistent_entry_ok :: "DataKey \<Rightarrow> ScVal \<Rightarrow> bool" where
  "persistent_entry_ok (Keeper a) (ScKeeper k) = (address k = a)"
| "persistent_entry_ok (Task i) (ScTask t) = (task_id t = i)"
| "persistent_entry_ok TreasuryBalance (ScI128 n) = True"
| "persistent_entry_ok _ _ = False"

fun instance_entry_ok :: "DataKey \<Rightarrow> ScVal \<Rightarrow> bool" where
  "instance_entry_ok TaskCounter (ScU32 n) = True"
| "instance_entry_ok Admin (ScAddress a) = True"
| "instance_entry_ok MinKeeperStake (ScI128 n) = True"
| "instance_entry_ok NativeToken (ScAddress a) = True"
| "instance_entry_ok _ _ = False"

definition storage_ok :: "'w Env \<Rightarrow> bool" where
  "storage_ok e \<longleftrightarrow>
     (\<forall>k v. persistent_st e k = Some v \<longrightarrow> persistent_entry_ok k v) \<and>
     (\<forall>k v. instance_st e k = Some v \<longrightarrow> instance_entry_ok k v)"

definition admin_of :: "'w Env \<Rightarrow> Address option" where
  "admin_of e = Option.bind (instance_st e Admin) as_address"

definition native_token_of :: "'w Env \<Rightarrow> Address option" where
  "native_token_of e = Option.bind (instance_st e NativeToken) as_address"

definition min_stake_of :: "'w Env \<Rightarrow> i128 option" where
  "min_stake_of e = Option.bind (instance_st e MinKeeperStake) as_i128"

definition task_counter_of :: "'w Env \<Rightarrow> u32" where
  "task_counter_of e = unwrap_or 0 (Option.bind (instance_st e TaskCounter) as_u32)"

definition treasury_of :: "'w Env \<Rightarrow> i128" where
  "treasury_of e = unwrap_or 0 (Option.bind (persistent_st e TreasuryBalance) as_i128)"

lemmas storage_views = admin_of_def native_token_of_def min_stake_of_def task_counter_of_def treasury_of_def

lemma view_frames [simp]:
  "admin_of (e\<lparr>events := x\<rparr>) = admin_of e" "admin_of (e\<lparr>sequence := l\<rparr>) = admin_of e"
  "admin_of (e\<lparr>auths := A\<rparr>) = admin_of e" "admin_of (e\<lparr>world := w\<rparr>) = admin_of e"
  "admin_of (put_persistent k v e) = admin_of e"
  "native_token_of (e\<lparr>events := x\<rparr>) = native_token_of e"
  "native_token_of (e\<lparr>sequence := l\<rparr>) = native_token_of e"
  "native_token_of (e\<lparr>auths := A\<rparr>) = native_token_of e"
  "native_token_of (e\<lparr>world := w\<rparr>) = native_token_of e"
  "native_token_of (put_persistent k v e) = native_token_of e"
  "min_stake_of (e\<lparr>events := x\<rparr>) = min_stake_of e"
  "min_stake_of (e\<lparr>sequence := l\<rparr>) = min_stake_of e"
  "min_stake_of (e\<lparr>auths := A\<rparr>) = min_stake_of e" "min_stake_of (e\<lparr>world := w\<rparr>) = min_stake_of e"
  "min_stake_of (put_persistent k v e) = min_stake_of e"
  "task_counter_of (e\<lparr>events := x\<rparr>) = task_counter_of e"
  "task_counter_of (e\<lparr>sequence := l\<rparr>) = task_counter_of e"
  "task_counter_of (e\<lparr>auths := A\<rparr>) = task_counter_of e"
  "task_counter_of (e\<lparr>world := w\<rparr>) = task_counter_of e"
  "task_counter_of (put_persistent k v e) = task_counter_of e"
  "treasury_of (e\<lparr>events := x\<rparr>) = treasury_of e" "treasury_of (e\<lparr>sequence := l\<rparr>) = treasury_of e"
  "treasury_of (e\<lparr>auths := A\<rparr>) = treasury_of e" "treasury_of (e\<lparr>world := w\<rparr>) = treasury_of e"
  "treasury_of (put_instance k v e) = treasury_of e"
  "k \<noteq> TreasuryBalance \<Longrightarrow> treasury_of (put_persistent k v e) = treasury_of e"
  by (simp_all add: storage_views put_persistent_def put_instance_def)

lemma view_put_instance [simp]:
  "admin_of (put_instance Admin (ScAddress a) e) = Some a"
  "native_token_of (put_instance NativeToken (ScAddress a) e) = Some a"
  "min_stake_of (put_instance MinKeeperStake (ScI128 m) e) = Some m"
  "task_counter_of (put_instance TaskCounter (ScU32 c) e) = c"
  "treasury_of (put_persistent TreasuryBalance (ScI128 m) e) = m"
  "k \<noteq> Admin \<Longrightarrow> admin_of (put_instance k v e) = admin_of e"
  "k \<noteq> NativeToken \<Longrightarrow> native_token_of (put_instance k v e) = native_token_of e"
  "k \<noteq> MinKeeperStake \<Longrightarrow> min_stake_of (put_instance k v e) = min_stake_of e"
  "k \<noteq> TaskCounter \<Longrightarrow> task_counter_of (put_instance k v e) = task_counter_of e"
  by (simp_all add: storage_views put_persistent_def put_instance_def)

lemma persistent_entry_okD:
  "persistent_entry_ok (Keeper a) v \<Longrightarrow> \<exists>k. v = ScKeeper k \<and> address k = a"
  "persistent_entry_ok (Task i) v \<Longrightarrow> \<exists>t. v = ScTask t \<and> task_id t = i"
  "persistent_entry_ok TreasuryBalance v \<Longrightarrow> \<exists>n. v = ScI128 n"
  by (cases v; simp)+

lemma instance_entry_okD:
  "instance_entry_ok TaskCounter v \<Longrightarrow> \<exists>n. v = ScU32 n"
  "instance_entry_ok Admin v \<Longrightarrow> \<exists>a. v = ScAddress a"
  "instance_entry_ok MinKeeperStake v \<Longrightarrow> \<exists>m. v = ScI128 m"
  "instance_entry_ok NativeToken v \<Longrightarrow> \<exists>a. v = ScAddress a"
  by (cases v; simp)+

lemma storage_ok_update [simp]:
  "storage_ok (e\<lparr>events := x\<rparr>) = storage_ok e"
  "storage_ok (e\<lparr>sequence := l\<rparr>) = storage_ok e"
  "storage_ok (e\<lparr>auths := A\<rparr>) = storage_ok e"
  "storage_ok (e\<lparr>world := w\<rparr>) = storage_ok e"
  by (simp_all add: storage_ok_def)

lemma storage_ok_put:
  "storage_ok e \<Longrightarrow> persistent_entry_ok k v \<Longrightarrow> storage_ok (put_persistent k v e)"
  "storage_ok e \<Longrightarrow> instance_entry_ok k v \<Longrightarrow> storage_ok (put_instance k v e)"
  by (auto simp: storage_ok_def tier_simps)

lemma storage_okD:
  "storage_ok e \<Longrightarrow> persistent_st e k = Some v \<Longrightarrow> persistent_entry_ok k v"
  "storage_ok e \<Longrightarrow> instance_st e k = Some v \<Longrightarrow> instance_entry_ok k v"
  by (simp_all add: storage_ok_def)

text \<open>In well-typed storage no typed read panics.\<close>

lemma convert_entry_typed:
  assumes "\<And>v. x = Some v \<Longrightarrow> conv v \<noteq> None"
  shows "convert_entry conv x e = (Ok (Option.bind x conv), e)"
  using assms by (cases x) (auto simp: convert_entry_def comp_simps split: option.splits)

lemma typed_persistent_get:
  assumes "storage_ok e" and "\<And>v. persistent_entry_ok k v \<Longrightarrow> conv v \<noteq> None"
  shows "persistent_get conv k e = (Ok (Option.bind (persistent_st e k) conv), e)"
  using assms storage_okD(1) [OF assms(1)] by (simp add: storage_get_apply convert_entry_typed)

lemma typed_instance_get:
  assumes "storage_ok e" and "\<And>v. instance_entry_ok k v \<Longrightarrow> conv v \<noteq> None"
  shows "instance_get conv k e = (Ok (Option.bind (instance_st e k) conv), e)"
  using assms storage_okD(2) [OF assms(1)] by (simp add: storage_get_apply convert_entry_typed)

lemma typed_instance_reads:
  assumes "storage_ok e"
  shows "instance_get as_address Admin e = (Ok (admin_of e), e)"
    and "instance_get as_address NativeToken e = (Ok (native_token_of e), e)"
    and "instance_get as_i128 MinKeeperStake e = (Ok (min_stake_of e), e)"
    and "instance_get as_u32 TaskCounter e = (Ok (Option.bind (instance_st e TaskCounter) as_u32), e)"
    and "persistent_get as_i128 TreasuryBalance e =
           (Ok (Option.bind (persistent_st e TreasuryBalance) as_i128), e)"
  unfolding storage_views using assms
  by (auto intro!: typed_instance_get typed_persistent_get
      dest!: instance_entry_okD persistent_entry_okD)

end
