(* ===== verification/Anchor_Events.thy ===== *)
theory Anchor_Events
  imports Anchor_Env
begin

text \<open>
  The event emitters of \<open>the-anchor/src/events.rs\<close>.  Each publishes one event under a
  one-element topic; the data tuple is the list of its components.
\<close>

definition emit_keeper_registered :: "Address \<Rightarrow> i128 \<Rightarrow> ('w, unit) contract" where
  "emit_keeper_registered keeper stake = publish [''kpr_reg''] [ScAddress keeper, ScI128 stake]"

definition emit_slash_applied :: "Address \<Rightarrow> i128 \<Rightarrow> i128 \<Rightarrow> ('w, unit) contract" where
  "emit_slash_applied keeper amount_slashed new_stake =
     publish [''slashed''] [ScAddress keeper, ScI128 amount_slashed, ScI128 new_stake]"

definition emit_zero_slash :: "Address \<Rightarrow> ('w, unit) contract" where
  "emit_zero_slash keeper = publish [''zero_slsh''] [ScAddress keeper]"

definition emit_task_provisioned ::
  "TaskId \<Rightarrow> Address \<Rightarrow> u32 \<Rightarrow> i128 \<Rightarrow> Address \<Rightarrow> ('w, unit) contract" where
  "emit_task_provisioned tid target interval reward designated =
     publish [''task_prov'']
       [ScTaskId tid, ScAddress target, ScU32 interval, ScI128 reward, ScAddress designated]"

definition emit_task_executed :: "TaskId \<Rightarrow> Address \<Rightarrow> u32 \<Rightarrow> i128 \<Rightarrow> ('w, unit) contract" where
  "emit_task_executed tid keeper ledger reward =
     publish [''task_exec''] [ScTaskId tid, ScAddress keeper, ScU32 ledger, ScI128 reward]"

definition emit_task_executed_by_secondary ::
  "TaskId \<Rightarrow> Address \<Rightarrow> Address \<Rightarrow> u32 \<Rightarrow> i128 \<Rightarrow> i128 \<Rightarrow> i128 \<Rightarrow> ('w, unit) contract" where
  "emit_task_executed_by_secondary tid secondary designated ledger slash secondary_reward micro =
     publish [''task_sec'']
       [ScTaskId tid, ScAddress secondary, ScAddress designated, ScU32 ledger,
        ScI128 slash, ScI128 secondary_reward, ScI128 micro]"

definition emit_missed_execution :: "TaskId \<Rightarrow> u32 \<Rightarrow> ('w, unit) contract" where
  "emit_missed_execution tid ledgers_elapsed =
     publish [''missed''] [ScTaskId tid, ScU32 ledgers_elapsed]"

lemmas emit_defs [comp_simps] =
  emit_keeper_registered_def emit_slash_applied_def emit_zero_slash_def
  emit_task_provisioned_def emit_task_executed_def emit_task_executed_by_secondary_def
  emit_missed_execution_def

end
