(* ===== verification/Anchor_Registry.thy ===== *)
theory Anchor_Registry
  imports Anchor_Events
begin

text \<open>
  Keeper registration and lookup, \<open>the-anchor/src/registry.rs\<close>.  The keeper entries of the
  persistent tier form a record store: \<open>keeper_at\<close> is its lookup and \<open>put_keeper\<close> the write
  behind \<open>update_keeper\<close>.
\<close>

definition MIN_KEEPER_STAKE :: i128 where
  "MIN_KEEPER_STAKE = 10000000"

definition get_keeper :: "Address \<Rightarrow> ('w, Keeper) contract" where
  "get_keeper keeper = bind_c (persistent_get as_keeper (Keeper keeper)) (ok_or_c KeeperNotFound)"

definition is_registered :: "Address \<Rightarrow> ('w, bool) contract" where
  "is_registered keeper = persistent_has (Keeper keeper)"

definition is_eligible :: "Address \<Rightarrow> ('w, bool) contract" where
  "is_eligible keeper = bind_c (persistent_get as_keeper (Keeper keeper))
     (\<lambda>r. case r of Some k \<Rightarrow> return_c (\<not> ineligible k) | None \<Rightarrow> return_c False)"

definition update_keeper :: "Keeper \<Rightarrow> ('w, unit) contract" where
  "update_keeper k = persistent_set (Keeper (address k)) (ScKeeper k)"

definition new_keeper :: "Address \<Rightarrow> i128 \<Rightarrow> Keeper" where
  "new_keeper keeper stake =
     \<lparr>address = keeper, stake_amount = stake, last_execution_ledger = 0, total_executions = 0,
      ineligible = False\<rparr>"

definition register_keeper :: "Address \<Rightarrow> i128 \<Rightarrow> ('w, unit) contract" where
  "register_keeper keeper stake =
     bind_c (require_auth keeper) (\<lambda>_.
     bind_c (instance_get as_i128 MinKeeperStake) (\<lambda>configured.
     let min_stake = unwrap_or MIN_KEEPER_STAKE configured in
     if sint stake < sint min_stake then throw_c StakeBelowMinimum
     else
       bind_c (persistent_has (Keeper keeper)) (\<lambda>present.
       if present then throw_c KeeperAlreadyRegistered
       else
         bind_c (persistent_set (Keeper keeper) (ScKeeper (new_keeper keeper stake))) (\<lambda>_.
         emit_keeper_registered keeper stake))))"

section \<open>The registry as a record store\<close>

definition keeper_at :: "'w Env \<Rightarrow> Address \<Rightarrow> Keeper option" where
  "keeper_at e a = Option.bind (persistent_st e (Keeper a)) as_keeper"

definition put_keeper :: "Keeper \<Rightarrow> 'w Env \<Rightarrow> 'w Env" where
  "put_keeper k e = put_persistent (Keeper (address k)) (ScKeeper k) e"

interpretation keeper_entries: keyed_records persistent_st put_persistent Keeper ScKeeper as_keeper address
  by unfold_locales simp_all

lemma keeper_at_fold: "(\<lambda>e a. Option.bind (persistent_st e (Keeper a)) as_keeper) = keeper_at"
  by (simp add: fun_eq_iff keeper_at_def)

lemma put_keeper_fold: "(\<lambda>k e. put_persistent (Keeper (address k)) (ScKeeper k) e) = put_keeper"
  by (simp add: fun_eq_iff put_keeper_def)

interpretation registry: record_store keeper_at put_keeper address
  using keeper_entries.recs.record_store_axioms by (simp only: keeper_at_fold put_keeper_fold)

section \<open>Registry operations on well-typed storage\<close>

lemma keeper_at_update [simp]:
  "keeper_at (e\<lparr>events := x\<rparr>) = keeper_at e"
  "keeper_at (e\<lparr>sequence := l\<rparr>) = keeper_at e"
  "keeper_at (e\<lparr>auths := A\<rparr>) = keeper_at e"
  "keeper_at (e\<lparr>world := w\<rparr>) = keeper_at e"
  "keeper_at (put_instance k v e) = keeper_at e"
  by (simp_all add: keeper_at_def fun_eq_iff)

lemma keeper_at_put_other [simp]:
  "(\<And>b. k \<noteq> Keeper b) \<Longrightarrow> keeper_at (put_persistent k v e) = keeper_at e"
  by (auto simp: keeper_at_def fun_eq_iff tier_simps)

lemma put_keeper_frames [simp]:
  "instance_st (put_keeper k e) = instance_st e"
  "events (put_keeper k e) = events e"
  "sequence (put_keeper k e) = sequence e"
  "auths (put_keeper k e) = auths e"
  "self_address (put_keeper k e) = self_address e"
  "world (put_keeper k e) = world e"
  "admin_of (put_keeper k e) = admin_of e"
  "native_token_of (put_keeper k e) = native_token_of e"
  "min_stake_of (put_keeper k e) = min_stake_of e"
  "task_counter_of (put_keeper k e) = task_counter_of e"
  "treasury_of (put_keeper k e) = treasury_of e"
  by (simp_all add: put_keeper_def)

lemma storage_ok_self_keyed: "storage_ok e \<Longrightarrow> self_keyed keeper_at address e"
  by (auto simp: self_keyed_def keeper_at_def bind_eq_Some_conv
      dest!: storage_okD(1) persistent_entry_okD(1))

lemma keeper_at_address: "storage_ok e \<Longrightarrow> keeper_at e a = Some k \<Longrightarrow> address k = a"
  using storage_ok_self_keyed by (auto simp: self_keyed_def)

lemma storage_ok_put_keeper [simp]: "storage_ok e \<Longrightarrow> storage_ok (put_keeper k e)"
  by (simp add: put_keeper_def storage_ok_put)

lemma keeper_entry_present:
  "storage_ok e \<Longrightarrow> (\<exists>v. persistent_st e (Keeper a) = Some v) \<longleftrightarrow> keeper_at e a \<noteq> None"
  by (cases "persistent_st e (Keeper a)")
    (auto simp: keeper_at_def dest!: storage_okD(1) persistent_entry_okD(1))

lemma get_keeper_eq:
  assumes "storage_ok e"
  shows "get_keeper a e =
    ((case keeper_at e a of None \<Rightarrow> Err KeeperNotFound | Some k \<Rightarrow> Ok k), e)"
proof -
  have "persistent_get as_keeper (Keeper a) e = (Ok (keeper_at e a), e)"
    unfolding keeper_at_def using assms
    by (auto intro!: typed_persistent_get dest!: persistent_entry_okD)
  then show ?thesis
    by (cases "keeper_at e a") (simp_all add: get_keeper_def comp_simps)
qed

lemma is_registered_eq:
  "storage_ok e \<Longrightarrow> is_registered a e = (Ok (keeper_at e a \<noteq> None), e)"
  using keeper_entry_present [of e a] by (simp add: is_registered_def comp_simps)

lemma is_eligible_eq:
  assumes "storage_ok e"
  shows "is_eligible a e =
    (Ok (case keeper_at e a of None \<Rightarrow> False | Some k \<Rightarrow> \<not> ineligible k), e)"
proof -
  have "persistent_get as_keeper (Keeper a) e = (Ok (keeper_at e a), e)"
    unfolding keeper_at_def using assms
    by (auto intro!: typed_persistent_get dest!: persistent_entry_okD)
  then show ?thesis
    by (cases "keeper_at e a") (simp_all add: is_eligible_def comp_simps)
qed

lemma update_keeper_eq [comp_simps]: "update_keeper k e = (Ok (), put_keeper k e)"
  by (simp add: update_keeper_def put_keeper_def comp_simps)

text \<open>The whole of \<open>register_keeper\<close>: its checks in order, and the entry it writes.\<close>

lemma register_keeper_eq:
  assumes "storage_ok e"
  shows "register_keeper a st e =
    (if \<not> auths e a then (Panic ''Error(Auth, InvalidAction)'', e)
     else if sint st < sint (unwrap_or MIN_KEEPER_STAKE (min_stake_of e))
       then (Err StakeBelowMinimum, e)
     else if keeper_at e a \<noteq> None then (Err KeeperAlreadyRegistered, e)
     else (Ok (), (put_keeper (new_keeper a st) e)
            \<lparr>events := events e @ [\<lparr>topics = [''kpr_reg''], data = [ScAddress a, ScI128 st]\<rparr>]\<rparr>))"
proof -
  have has: "persistent_has (Keeper a) e = (Ok (keeper_at e a \<noteq> None), e)"
    using is_registered_eq [OF assms] by (simp add: is_registered_def)
  have put: "put_persistent (Keeper a) (ScKeeper (new_keeper a st)) e = put_keeper (new_keeper a st) e"
    by (simp add: put_keeper_def new_keeper_def)
  show ?thesis
    using typed_instance_reads(3) [OF assms] has
    by (cases "auths e a") (simp_all add: register_keeper_def comp_simps Let_def put put_keeper_def)
qed

end
