(* ===== verification/Anchor_Tasks.thy ===== *)
theory Anchor_Tasks
  imports Anchor_Registry
begin

text \<open>
  Task provisioning and lookup, \<open>the-anchor/src/tasks.rs\<close>.  The task entries of the persistent
  tier form a second record store, with \<open>task_at\<close> as its lookup and \<open>put_task\<close> as the write
  behind \<open>update_task\<close>.
\<close>

text \<open>\<open>u32::to_be_bytes\<close>: the four bytes of a word, most significant first.\<close>

definition to_be_bytes :: "u32 \<Rightarrow> u8 list" where
  "to_be_bytes w = [ucast (drop_bit 24 w), ucast (drop_bit 16 w), ucast (drop_bit 8 w), ucast w]"

definition get_task :: "TaskId \<Rightarrow> ('w, ExecutionTask) contract" where
  "get_task tid = bind_c (persistent_get as_task (Task tid)) (ok_or_c TaskNotFound)"

definition update_task :: "ExecutionTask \<Rightarrow> ('w, unit) contract" where
  "update_task t = persistent_set (Task (task_id t)) (ScTask t)"

definition provision_task ::
  "'w Host \<Rightarrow> Address \<Rightarrow> u32 \<Rightarrow> i128 \<Rightarrow> Address \<Rightarrow> ('w, TaskId) contract" where
  "provision_task h target interval reward designated =
     bind_c (bind_c (instance_get as_address Admin) (ok_or_c UnauthorizedCaller)) (\<lambda>admin.
     bind_c (require_auth admin) (\<lambda>_.
     if interval = 0 then throw_c InvalidInterval
     else if sint reward \<le> 0 then throw_c InvalidReward
     else
       bind_c (is_registered designated) (\<lambda>registered.
       if \<not> registered then throw_c KeeperNotFound
       else
         bind_c (is_eligible designated) (\<lambda>eligible.
         if \<not> eligible then throw_c IneligibleKeeper
         else
           bind_c (instance_get as_u32 TaskCounter) (\<lambda>stored.
           let counter = unwrap_or 0 stored in
           bind_c (unwrap_c ADD_OVERFLOW (uadd (profile h) counter 1)) (\<lambda>next_counter.
           bind_c (instance_set TaskCounter (ScU32 next_counter)) (\<lambda>_.
           bind_c (gets_c sequence) (\<lambda>current_ledger.
           let tid = sha256 h (to_be_bytes counter @ to_be_bytes current_ledger) in
           bind_c (unwrap_c ADD_OVERFLOW (uadd (profile h) current_ledger interval)) (\<lambda>next_allowed.
           let task = \<lparr>task_id = tid, target_drip_list = target,
                       execution_interval_ledgers = interval,
                       next_allowed_execution = next_allowed,
                       micro_reward_per_run = reward, designated_keeper = designated\<rparr> in
           bind_c (persistent_set (Task tid) (ScTask task)) (\<lambda>_.
           bind_c (emit_task_provisioned tid target interval reward designated) (\<lambda>_.
           return_c tid)))))))))))"

section \<open>The task table as a record store\<close>

definition task_at :: "'w Env \<Rightarrow> TaskId \<Rightarrow> ExecutionTask option" where
  "task_at e i = Option.bind (persistent_st e (Task i)) as_task"

definition put_task :: "ExecutionTask \<Rightarrow> 'w Env \<Rightarrow> 'w Env" where
  "put_task t e = put_persistent (Task (task_id t)) (ScTask t) e"

interpretation task_entries: keyed_records persistent_st put_persistent Task ScTask as_task task_id
  by unfold_locales simp_all

lemma task_at_fold: "(\<lambda>e i. Option.bind (persistent_st e (Task i)) as_task) = task_at"
  by (simp add: fun_eq_iff task_at_def)

lemma put_task_fold: "(\<lambda>t e. put_persistent (Task (task_id t)) (ScTask t) e) = put_task"
  by (simp add: fun_eq_iff put_task_def)

interpretation task_table: record_store task_at put_task task_id
  using task_entries.recs.record_store_axioms by (simp only: task_at_fold put_task_fold)

section \<open>Task operations on well-typed storage\<close>

lemma task_at_update [simp]:
  "task_at (e\<lparr>events := x\<rparr>) = task_at e"
  "task_at (e\<lparr>sequence := l\<rparr>) = task_at e"
  "task_at (e\<lparr>auths := A\<rparr>) = task_at e"
  "task_at (e\<lparr>world := w\<rparr>) = task_at e"
  "task_at (put_instance k v e) = task_at e"
  by (simp_all add: task_at_def fun_eq_iff)

lemma task_at_put_other [simp]:
  "(\<And>i. k \<noteq> Task i) \<Longrightarrow> task_at (put_persistent k v e) = task_at e"
  by (auto simp: task_at_def fun_eq_iff tier_simps)

lemma put_task_frames [simp]:
  "instance_st (put_task t e) = instance_st e"
  "events (put_task t e) = events e"
  "sequence (put_task t e) = sequence e"
  "auths (put_task t e) = auths e"
  "self_address (put_task t e) = self_address e"
  "world (put_task t e) = world e"
  "admin_of (put_task t e) = admin_of e"
  "native_token_of (put_task t e) = native_token_of e"
  "min_stake_of (put_task t e) = min_stake_of e"
  "task_counter_of (put_task t e) = task_counter_of e"
  "treasury_of (put_task t e) = treasury_of e"
  "keeper_at (put_task t e) = keeper_at e"
  "task_at (put_keeper k e) = task_at e"
  by (simp_all add: put_task_def put_keeper_def)

lemma storage_ok_tasks_self_keyed: "storage_ok e \<Longrightarrow> self_keyed task_at task_id e"
  by (auto simp: self_keyed_def task_at_def bind_eq_Some_conv
      dest!: storage_okD(1) persistent_entry_okD(2))

lemma task_at_task_id: "storage_ok e \<Longrightarrow> task_at e i = Some t \<Longrightarrow> task_id t = i"
  using storage_ok_tasks_self_keyed by (auto simp: self_keyed_def)

lemma storage_ok_put_task [simp]: "storage_ok e \<Longrightarrow> storage_ok (put_task t e)"
  by (simp add: put_task_def storage_ok_put)

lemma get_task_eq:
  assumes "storage_ok e"
  shows "get_task i e = ((case task_at e i of None \<Rightarrow> Err TaskNotFound | Some t \<Rightarrow> Ok t), e)"
proof -
  have "persistent_get as_task (Task i) e = (Ok (task_at e i), e)"
    unfolding task_at_def using assms
    by (auto intro!: typed_persistent_get dest!: persistent_entry_okD)
  then show ?thesis
    by (cases "task_at e i") (simp_all add: get_task_def comp_simps)
qed

lemma update_task_eq [comp_simps]: "update_task t e = (Ok (), put_task t e)"
  by (simp add: update_task_def put_task_def comp_simps)

text \<open>The entry and the event a successful \<open>provision_task\<close> adds.\<close>

definition provisioned ::
  "'w Host \<Rightarrow> 'w Env \<Rightarrow> Address \<Rightarrow> u32 \<Rightarrow> i128 \<Rightarrow> Address \<Rightarrow> u32 \<Rightarrow> ExecutionTask" where
  "provisioned h e target interval reward designated next_allowed =
     \<lparr>task_id = sha256 h (to_be_bytes (task_counter_of e) @ to_be_bytes (sequence e)),
      target_drip_list = target, execution_interval_ledgers = interval,
      next_allowed_execution = next_allowed, micro_reward_per_run = reward,
      designated_keeper = designated\<rparr>"

definition task_prov_event :: "ExecutionTask \<Rightarrow> event" where
  "task_prov_event t = \<lparr>topics = [''task_prov''],
     data = [ScTaskId (task_id t), ScAddress (target_drip_list t),
             ScU32 (execution_interval_ledgers t), ScI128 (micro_reward_per_run t),
             ScAddress (designated_keeper t)]\<rparr>"

lemma provision_task_eq:
  assumes "storage_ok e"
  shows "provision_task h target interval reward designated e =
    (case admin_of e of
       None \<Rightarrow> (Err UnauthorizedCaller, e)
     | Some admin \<Rightarrow>
         if \<not> auths e admin then (Panic ''Error(Auth, InvalidAction)'', e)
         else if interval = 0 then (Err InvalidInterval, e)
         else if sint reward \<le> 0 then (Err InvalidReward, e)
         else (case keeper_at e designated of
             None \<Rightarrow> (Err KeeperNotFound, e)
           | Some k \<Rightarrow>
               if ineligible k then (Err IneligibleKeeper, e)
               else (case uadd (profile h) (task_counter_of e) 1 of
                   None \<Rightarrow> (Panic ADD_OVERFLOW, e)
                 | Some c \<Rightarrow>
                     (case uadd (profile h) (sequence e) interval of
                        None \<Rightarrow> (Panic ADD_OVERFLOW, put_instance TaskCounter (ScU32 c) e)
                      | Some n \<Rightarrow>
                          (let t = provisioned h e target interval reward designated n
                           in (Ok (task_id t),
                               (put_task t (put_instance TaskCounter (ScU32 c) e))
                                 \<lparr>events := events e @ [task_prov_event t]\<rparr>))))))"
proof -
  note reads = typed_instance_reads(1,4) [OF assms] is_registered_eq [OF assms]
    is_eligible_eq [OF assms]
  have counter: "unwrap_or 0 (Option.bind (instance_st e TaskCounter) as_u32) = task_counter_of e"
    by (simp add: task_counter_of_def)
  show ?thesis
    by (simp add: provision_task_def comp_simps reads counter Let_def provisioned_def
        task_prov_event_def put_task_def split: option.split)
qed

end
