(* ===== verification/Anchor_Slashing.thy ===== *)
theory Anchor_Slashing
  imports Anchor_Registry
begin

text \<open>
  Slashing, \<open>the-anchor/src/slashing.rs\<close>: the 5 percent penalty, its split between the secondary
  keeper and the treasury, the ineligibility flag and the zero-stake guard.
\<close>

definition apply_slash :: "'w Host \<Rightarrow> Address \<Rightarrow> ('w, i128 \<times> i128) contract" where
  "apply_slash h designated =
     bind_c (get_keeper designated) (\<lambda>keeper.
     if sint (stake_amount keeper) = 0 then
       bind_c (emit_zero_slash designated) (\<lambda>_. throw_c SlashOnZeroStake)
     else
       bind_c (unwrap_c MUL_OVERFLOW (i128_mul (profile h) (stake_amount keeper) 5)) (\<lambda>five.
       bind_c (unwrap_c ''attempt to divide with overflow'' (i128_div five 100)) (\<lambda>slash.
       bind_c (unwrap_c SUB_OVERFLOW (i128_sub (profile h) (stake_amount keeper) slash)) (\<lambda>new_stake.
       bind_c (unwrap_c ''attempt to divide with overflow'' (i128_div slash 2)) (\<lambda>secondary_reward.
       bind_c (unwrap_c SUB_OVERFLOW (i128_sub (profile h) slash secondary_reward)) (\<lambda>treasury_portion.
       bind_c (persistent_get as_i128 TreasuryBalance) (\<lambda>stored.
       bind_c (unwrap_c ADD_OVERFLOW
                 (i128_add (profile h) (unwrap_or 0 stored) treasury_portion)) (\<lambda>treasury.
       bind_c (persistent_set TreasuryBalance (ScI128 treasury)) (\<lambda>_.
       let slashed = keeper\<lparr>stake_amount := new_stake\<rparr>;
           marked = (if sint new_stake < sint MIN_KEEPER_STAKE then slashed\<lparr>ineligible := True\<rparr>
                     else slashed) in
       bind_c (update_keeper marked) (\<lambda>_.
       bind_c (emit_slash_applied designated slash new_stake) (\<lambda>_.
       return_c (slash, secondary_reward))))))))))))"

section \<open>Slash arithmetic\<close>

text \<open>
  The formula of the module's documentation over the integers, with the division of the language
  (towards zero; the floor for the non-negative stakes of the protocol).
\<close>

definition slash_of :: "int \<Rightarrow> int" where
  "slash_of s = (s * 5) sdiv 100"

definition secondary_reward_of :: "int \<Rightarrow> int" where
  "secondary_reward_of s = slash_of s sdiv 2"

definition treasury_portion_of :: "int \<Rightarrow> int" where
  "treasury_portion_of s = slash_of s - secondary_reward_of s"

lemma slash_of_floor: "0 \<le> s \<Longrightarrow> slash_of s = s * 5 div 100"
  by (simp add: slash_of_def sdiv_pos_eq)

lemma slash_of_bounds: "0 \<le> s \<Longrightarrow> 0 \<le> slash_of s \<and> 20 * slash_of s \<le> s"
  unfolding slash_of_floor by arith

lemma secondary_reward_of_floor: "0 \<le> s \<Longrightarrow> secondary_reward_of s = slash_of s div 2"
  using slash_of_bounds by (simp add: secondary_reward_of_def sdiv_pos_eq)

lemma secondary_reward_of_bounds:
  "0 \<le> s \<Longrightarrow> 0 \<le> secondary_reward_of s \<and> 2 * secondary_reward_of s \<le> slash_of s"
  using slash_of_bounds [of s] by (auto simp: secondary_reward_of_floor)

lemma treasury_portion_of_bounds:
  "0 \<le> s \<Longrightarrow> secondary_reward_of s \<le> treasury_portion_of s \<and>
     treasury_portion_of s \<le> secondary_reward_of s + 1"
  using slash_of_bounds [of s] by (auto simp: treasury_portion_of_def secondary_reward_of_floor)

text \<open>The 5 percent of a positive stake never exhausts it.\<close>

lemma slash_of_keeps_positive: "0 < s \<Longrightarrow> 0 < s - slash_of s"
  using slash_of_bounds [of s] by arith

lemma slash_intermediate_range:
  assumes "i128_in_range s" and "i128_in_range (s * 5)"
  shows "i128_in_range (slash_of s)" and "i128_in_range (s - slash_of s)"
    and "i128_in_range (secondary_reward_of s)" and "i128_in_range (treasury_portion_of s)"
proof -
  show sl: "i128_in_range (slash_of s)"
    using assms(2) by (simp add: slash_of_def i128_in_range_sdiv)
  show "i128_in_range (s - slash_of s)"
  proof (cases "0 \<le> s")
    case True
    then show ?thesis using assms slash_of_bounds [of s] by (auto simp: i128_in_range_def)
  next
    case False
    then have "s * 5 \<le> slash_of s \<and> slash_of s \<le> 0"
      using sdiv_between(2) [of 100 "s * 5"] by (simp add: slash_of_def)
    then show ?thesis using assms False by (auto simp: i128_in_range_def)
  qed
  show "i128_in_range (secondary_reward_of s)"
    using sl by (simp add: secondary_reward_of_def i128_in_range_sdiv)
  show "i128_in_range (treasury_portion_of s)"
    using sl sdiv_between [of 2 "slash_of s"]
    by (cases "0 \<le> slash_of s")
      (auto simp: treasury_portion_of_def secondary_reward_of_def i128_in_range_def)
qed

section \<open>The effect of a slash\<close>

definition slashed_keeper :: "Keeper \<Rightarrow> Keeper" where
  "slashed_keeper k =
     (let n = sint (stake_amount k) - slash_of (sint (stake_amount k))
      in k\<lparr>stake_amount := word_of_int n,
           ineligible := ineligible k \<or> n < sint MIN_KEEPER_STAKE\<rparr>)"

definition slashed_event :: "Address \<Rightarrow> Keeper \<Rightarrow> event" where
  "slashed_event a k = \<lparr>topics = [''slashed''],
     data = [ScAddress a, ScI128 (word_of_int (slash_of (sint (stake_amount k)))),
             ScI128 (stake_amount (slashed_keeper k))]\<rparr>"

definition slashed_env :: "Address \<Rightarrow> Keeper \<Rightarrow> 'w Env \<Rightarrow> 'w Env" where
  "slashed_env a k e =
     (put_keeper (slashed_keeper k)
        (put_persistent TreasuryBalance
           (ScI128 (word_of_int (sint (treasury_of e) +
              treasury_portion_of (sint (stake_amount k))))) e))
       \<lparr>events := events e @ [slashed_event a k]\<rparr>"

definition slash_in_range :: "Keeper \<Rightarrow> 'w Env \<Rightarrow> bool" where
  "slash_in_range k e \<longleftrightarrow> i128_in_range (sint (stake_amount k) * 5) \<and>
     i128_in_range (sint (treasury_of e) + treasury_portion_of (sint (stake_amount k)))"

lemma slashed_keeper_address [simp]: "address (slashed_keeper k) = address k"
  by (simp add: slashed_keeper_def Let_def)

lemma mark_ineligible:
  "(if low then k\<lparr>stake_amount := n, ineligible := True\<rparr> else k\<lparr>stake_amount := n\<rparr>) =
     k\<lparr>stake_amount := n, ineligible := ineligible k \<or> low\<rparr>"
  by simp

lemma apply_slash_zero:
  assumes "storage_ok e" and "keeper_at e a = Some k" and "sint (stake_amount k) = 0"
  shows "apply_slash h a e =
    (Err SlashOnZeroStake, e\<lparr>events := events e @ [\<lparr>topics = [''zero_slsh''], data = [ScAddress a]\<rparr>]\<rparr>)"
  using assms by (simp add: apply_slash_def comp_simps get_keeper_eq)

lemma apply_slash_unknown:
  "storage_ok e \<Longrightarrow> keeper_at e a = None \<Longrightarrow> apply_slash h a e = (Err KeeperNotFound, e)"
  by (simp add: apply_slash_def comp_simps get_keeper_eq)

text \<open>\<open>SlashOnZeroStake\<close> is returned for a zero stake only.\<close>

lemma slash_error_zero:
  assumes "storage_ok e" and "keeper_at e a = Some k"
    and "fst (apply_slash h a e) = Err SlashOnZeroStake"
  shows "sint (stake_amount k) = 0"
proof (rule ccontr)
  assume "sint (stake_amount k) \<noteq> 0"
  with assms show False
    by (auto simp: apply_slash_def comp_simps get_keeper_eq unwrap_c_def typed_instance_reads(5)
        Let_def split: option.splits)
qed

text \<open>The chain of checked operations of \<open>apply_slash\<close> when the product fits.\<close>

lemma slash_chain:
  fixes st :: i128
  assumes r5: "i128_in_range (sint st * 5)"
  shows "i128_mul p st 5 = Some (word_of_int (sint st * 5))"
    and "i128_div (word_of_int (sint st * 5)) 100 = Some (word_of_int (slash_of (sint st)))"
    and "i128_sub p st (word_of_int (slash_of (sint st))) =
           Some (word_of_int (sint st - slash_of (sint st)))"
    and "i128_div (word_of_int (slash_of (sint st))) 2 =
           Some (word_of_int (secondary_reward_of (sint st)))"
    and "i128_sub p (word_of_int (slash_of (sint st))) (word_of_int (secondary_reward_of (sint st))) =
           Some (word_of_int (treasury_portion_of (sint st)))"
proof -
  note r = slash_intermediate_range [OF i128_in_range_sint r5]
  show "i128_mul p st 5 = Some (word_of_int (sint st * 5))"
    using r5 by (simp add: i128_mul_def i128_arith_in_range)
  show "i128_div (word_of_int (sint st * 5)) 100 = Some (word_of_int (slash_of (sint st)))"
    using r(1) sint_word_of_i128 [OF r5] by (simp add: i128_div_def slash_of_def)
  show "i128_sub p st (word_of_int (slash_of (sint st))) =
      Some (word_of_int (sint st - slash_of (sint st)))"
    using r(2) sint_word_of_i128 [OF r(1)] by (simp add: i128_sub_def i128_arith_in_range)
  show "i128_div (word_of_int (slash_of (sint st))) 2 =
      Some (word_of_int (secondary_reward_of (sint st)))"
    using r(3) sint_word_of_i128 [OF r(1)] by (simp add: i128_div_def secondary_reward_of_def)
  show "i128_sub p (word_of_int (slash_of (sint st))) (word_of_int (secondary_reward_of (sint st))) =
      Some (word_of_int (treasury_portion_of (sint st)))"
    using r(4) sint_word_of_i128 [OF r(1)] sint_word_of_i128 [OF r(3)]
    by (simp add: i128_sub_def i128_arith_in_range treasury_portion_of_def)
qed

text \<open>Up to the treasury update a slash of a stake whose product fits does not depend on the profile.\<close>

lemma apply_slash_prefix:
  assumes ok: "storage_ok e" and k: "keeper_at e a = Some k"
    and nz: "sint (stake_amount k) \<noteq> 0" and r5: "i128_in_range (sint (stake_amount k) * 5)"
  shows "apply_slash h a e =
    (case i128_add (profile h) (treasury_of e)
            (word_of_int (treasury_portion_of (sint (stake_amount k)))) of
       None \<Rightarrow> (Panic ADD_OVERFLOW, e)
     | Some t \<Rightarrow>
         (Ok (word_of_int (slash_of (sint (stake_amount k))),
              word_of_int (secondary_reward_of (sint (stake_amount k)))),
          (put_keeper (slashed_keeper k) (put_persistent TreasuryBalance (ScI128 t) e))
            \<lparr>events := events e @ [slashed_event a k]\<rparr>))"
proof -
  have lt: "sint (word_of_int (sint (stake_amount k) - slash_of (sint (stake_amount k))) :: i128) =
      sint (stake_amount k) - slash_of (sint (stake_amount k))"
    using slash_intermediate_range(2) [OF i128_in_range_sint r5] by (rule sint_word_of_i128)
  have t: "unwrap_or 0 (Option.bind (persistent_st e TreasuryBalance) as_i128) = treasury_of e"
    by (simp add: treasury_of_def)
  show ?thesis
    using nz lt
    by (simp add: apply_slash_def comp_simps get_keeper_eq [OF ok] k typed_instance_reads(5) [OF ok]
        slash_chain [OF r5] t slashed_event_def slashed_keeper_def Let_def
        del: of_int_mult of_int_diff of_int_add split: option.split)
qed

lemma apply_slash_eq:
  assumes "storage_ok e" and "keeper_at e a = Some k"
    and "sint (stake_amount k) \<noteq> 0" and rng: "slash_in_range k e"
  shows "apply_slash h a e =
    (Ok (word_of_int (slash_of (sint (stake_amount k))),
         word_of_int (secondary_reward_of (sint (stake_amount k)))), slashed_env a k e)"
proof -
  from rng have r5: "i128_in_range (sint (stake_amount k) * 5)"
    by (simp add: slash_in_range_def)
  have "i128_add (profile h) (treasury_of e)
      (word_of_int (treasury_portion_of (sint (stake_amount k)))) =
      Some (word_of_int (sint (treasury_of e) + treasury_portion_of (sint (stake_amount k))))"
    using rng sint_word_of_i128 [OF slash_intermediate_range(4) [OF i128_in_range_sint r5]]
    by (simp add: i128_add_def slash_in_range_def i128_arith_in_range)
  then show ?thesis
    using assms r5 by (simp add: apply_slash_prefix slashed_env_def del: of_int_add)
qed

text \<open>With overflow checks a slash that returns is one whose intermediate values fit.\<close>

lemma apply_slash_Dev_range:
  assumes "profile h = Dev" and ok: "storage_ok e" and ret: "apply_slash h a e = (Ok r, e')"
  shows "\<exists>k. keeper_at e a = Some k \<and> sint (stake_amount k) \<noteq> 0 \<and> slash_in_range k e"
proof -
  from ok ret obtain k where k: "keeper_at e a = Some k"
    by (cases "keeper_at e a") (auto simp: apply_slash_unknown)
  have nz: "sint (stake_amount k) \<noteq> 0"
    using ok ret k by (auto simp: apply_slash_zero)
  from assms k nz have r5: "i128_in_range (sint (stake_amount k) * 5)"
    by (auto simp: apply_slash_def comp_Ok_iff comp_simps get_keeper_eq i128_mul_def i128_arith_def
        split: if_splits)
  have "i128_in_range (sint (treasury_of e) + treasury_portion_of (sint (stake_amount k)))"
    using ret assms(1) sint_word_of_i128 [OF slash_intermediate_range(4) [OF i128_in_range_sint r5]]
    by (auto simp: apply_slash_prefix [OF ok k nz r5] i128_add_def i128_arith_def
        split: option.splits if_splits)
  with k nz r5 show ?thesis by (auto simp: slash_in_range_def)
qed

text \<open>
  The slash of \<open>a\<close> is computed without wrap-around: by the checks of a \<open>dev\<close> build, or because the
  product with five and the treasury fit their integers.
\<close>

definition slash_exact :: "'w Host \<Rightarrow> 'w Env \<Rightarrow> Address \<Rightarrow> bool" where
  "slash_exact h e a \<longleftrightarrow> profile h = Dev \<or> (\<forall>k. keeper_at e a = Some k \<longrightarrow> slash_in_range k e)"

lemma apply_slash_exact:
  assumes exact: "slash_exact h e a" and ok: "storage_ok e" and ret: "apply_slash h a e = (Ok r, e')"
  obtains k where "keeper_at e a = Some k" and "sint (stake_amount k) \<noteq> 0" and "slash_in_range k e"
    and "r = (word_of_int (slash_of (sint (stake_amount k))),
              word_of_int (secondary_reward_of (sint (stake_amount k))))"
    and "e' = slashed_env a k e"
proof -
  from ok ret obtain k where k: "keeper_at e a = Some k"
    by (cases "keeper_at e a") (auto simp: apply_slash_unknown)
  moreover from ok ret k have nz: "sint (stake_amount k) \<noteq> 0"
    by (auto simp: apply_slash_zero)
  moreover have rng: "slash_in_range k e"
    using exact apply_slash_Dev_range [OF _ ok ret] k by (auto simp: slash_exact_def)
  ultimately show ?thesis
    using that apply_slash_eq [OF ok k nz rng, of h] ret by simp
qed

text \<open>In either profile a slash that returns writes one keeper entry and the treasury, and appends one event.\<close>

lemma apply_slash_Ok_shape:
  assumes ok: "storage_ok e" and ret: "apply_slash h a e = (Ok r, e')"
  obtains k k' treasury where "keeper_at e a = Some k" and "sint (stake_amount k) \<noteq> 0"
    and "k' = k\<lparr>stake_amount := stake_amount k', ineligible := ineligible k'\<rparr>"
    and "ineligible k' \<longleftrightarrow> ineligible k \<or> sint (stake_amount k') < sint MIN_KEEPER_STAKE"
    and "e' = (put_keeper k' (put_persistent TreasuryBalance (ScI128 treasury) e))
           \<lparr>events := events e @ [\<lparr>topics = [''slashed''],
              data = [ScAddress a, ScI128 (fst r), ScI128 (stake_amount k')]\<rparr>]\<rparr>"
proof -
  from ok ret obtain k where k: "keeper_at e a = Some k"
    by (cases "keeper_at e a") (auto simp: apply_slash_unknown)
  moreover from ok ret k have nz: "sint (stake_amount k) \<noteq> 0"
    by (auto simp: apply_slash_zero)
  moreover from ok ret k nz obtain new_stake treasury where
    "e' = (put_keeper (k\<lparr>stake_amount := new_stake,
              ineligible := ineligible k \<or> sint new_stake < sint MIN_KEEPER_STAKE\<rparr>)
            (put_persistent TreasuryBalance (ScI128 treasury) e))
          \<lparr>events := events e @ [\<lparr>topics = [''slashed''],
              data = [ScAddress a, ScI128 (fst r), ScI128 new_stake]\<rparr>]\<rparr>"
    by (auto simp: apply_slash_def comp_Ok_iff comp_simps get_keeper_eq typed_instance_reads(5)
        Let_def mark_ineligible)
  ultimately show ?thesis
    using that [of k "k\<lparr>stake_amount := new_stake,
      ineligible := ineligible k \<or> sint new_stake < sint MIN_KEEPER_STAKE\<rparr>" treasury] by simp
qed

text \<open>
  What a slash does to a keeper record: stake and flag are rewritten and nothing else, the flag
  stays or is raised by the hard-coded minimum, and with overflow checks the stake is the one the
  formula gives.
\<close>

definition slash_only :: "'w Host \<Rightarrow> Keeper \<Rightarrow> Keeper \<Rightarrow> bool" where
  "slash_only h k k' \<longleftrightarrow>
     k' = k\<lparr>stake_amount := stake_amount k', ineligible := ineligible k'\<rparr> \<and>
     (ineligible k' \<longleftrightarrow> ineligible k \<or> sint (stake_amount k') < sint MIN_KEEPER_STAKE) \<and>
     (profile h = Dev \<longrightarrow> k' = slashed_keeper k)"

definition slash_paid :: "'w Host \<Rightarrow> 'w Env \<Rightarrow> Keeper \<Rightarrow> i128 \<times> i128 \<Rightarrow> i128 \<Rightarrow> bool" where
  "slash_paid h e k r treasury \<longleftrightarrow> (profile h = Dev \<longrightarrow>
     sint (fst r) = slash_of (sint (stake_amount k)) \<and>
     sint (snd r) = secondary_reward_of (sint (stake_amount k)) \<and>
     sint treasury = sint (treasury_of e) + (sint (fst r) - sint (snd r)))"

lemma slash_only_address: "slash_only h k k' \<Longrightarrow> address k' = address k"
  unfolding slash_only_def
  by (metis Keeper.select_convs(1) Keeper.surjective Keeper.update_convs(2,5))

lemma slash_only_counters:
  assumes "slash_only h k k'"
  shows "total_executions k' = total_executions k"
    and "last_execution_ledger k' = last_execution_ledger k"
  using assms unfolding slash_only_def
  by (metis Keeper.ext_inject Keeper.surjective Keeper.update_convs(2,5))+

lemma slashed_keeper_stake:
  assumes "i128_in_range (sint (stake_amount k) * 5)"
  shows "sint (stake_amount (slashed_keeper k)) = sint (stake_amount k) - slash_of (sint (stake_amount k))"
  using sint_word_of_i128 [OF slash_intermediate_range(2) [OF i128_in_range_sint assms]]
  by (simp add: slashed_keeper_def Let_def)

lemma apply_slash_Ok_effect:
  assumes ok: "storage_ok e" and ret: "apply_slash h a e = (Ok r, e')"
  obtains k k' treasury where "keeper_at e a = Some k" and "sint (stake_amount k) \<noteq> 0"
    and "profile h = Dev \<Longrightarrow> slash_in_range k e"
    and "slash_only h k k'" and "slash_paid h e k r treasury"
    and "e' = (put_keeper k' (put_persistent TreasuryBalance (ScI128 treasury) e))
           \<lparr>events := events e @ [\<lparr>topics = [''slashed''],
              data = [ScAddress a, ScI128 (fst r), ScI128 (stake_amount k')]\<rparr>]\<rparr>"
proof (cases "profile h = Dev")
  case True
  from apply_slash_Dev_range [OF True ok ret] obtain k where k: "keeper_at e a = Some k"
    and nz: "sint (stake_amount k) \<noteq> 0" and rng: "slash_in_range k e" by blast
  let ?s = "sint (stake_amount k)"
  let ?t = "word_of_int (sint (treasury_of e) + treasury_portion_of ?s) :: i128"
  from rng have r5: "i128_in_range (?s * 5)"
    and rt: "i128_in_range (sint (treasury_of e) + treasury_portion_of ?s)"
    by (simp_all add: slash_in_range_def)
  note r = slash_intermediate_range [OF i128_in_range_sint r5]
  from ret apply_slash_eq [OF ok k nz rng, of h]
  have res: "r = (word_of_int (slash_of ?s), word_of_int (secondary_reward_of ?s))"
    and e': "e' = slashed_env a k e" by simp_all
  have "slash_only h k (slashed_keeper k)"
    using slashed_keeper_stake [OF r5] by (simp add: slash_only_def) (simp add: slashed_keeper_def Let_def)
  moreover have "slash_paid h e k r ?t"
    using sint_word_of_i128 [OF r(1)] sint_word_of_i128 [OF r(3)] sint_word_of_i128 [OF rt]
    by (simp add: slash_paid_def res treasury_portion_of_def del: of_int_add of_int_diff)
  ultimately show ?thesis
    using that [OF k nz rng, of "slashed_keeper k" ?t]
    by (simp add: e' slashed_env_def slashed_event_def res del: of_int_add)
next
  case False
  from apply_slash_Ok_shape [OF ok ret] show ?thesis
    using that False unfolding slash_only_def slash_paid_def by metis
qed

end
