(* ===== verification/Anchor_Execution.thy ===== *)
theory Anchor_Execution
  imports Anchor_Tasks Anchor_Slashing
begin

text \<open>
  The execution pipeline of the contract, \<open>the-anchor/src/execution.rs\<close>: the four-region window
  arbitration of \<open>execute_drip_split\<close> and the success path \<open>execute_distribution\<close> it shares.
\<close>

text \<open>
  The block both functions use to pay from the contract's balance: read the token address
  (panicking when it is not set), compare the balance, transfer.
\<close>

definition pay_from_contract :: "'w Host \<Rightarrow> Address \<Rightarrow> i128 \<Rightarrow> ('w, unit) contract" where
  "pay_from_contract h receiver amount =
     bind_c (bind_c (instance_get as_address NativeToken)
               (unwrap_c ''native token not initialised'')) (\<lambda>token.
     bind_c (gets_c self_address) (\<lambda>contract_address.
     bind_c (bind_c (gets_c (\<lambda>e. token_balance h token contract_address (world e)))
               (unwrap_c ''Error(Context, InvalidAction)'')) (\<lambda>balance.
     if sint balance < sint amount then throw_c InsufficientRewardBalance
     else foreign_call (token_transfer h token contract_address receiver amount))))"

definition execute_distribution ::
  "'w Host \<Rightarrow> ExecutionTask \<Rightarrow> Address \<Rightarrow> bool \<Rightarrow> ('w, unit) contract" where
  "execute_distribution h task caller is_secondary =
     bind_c (gets_c sequence) (\<lambda>current_ledger.
     bind_c (foreign_call
               (invoke_contract h (target_drip_list task) ''distribute_wave_splits'' [])) (\<lambda>_.
     bind_c (pay_from_contract h caller (micro_reward_per_run task)) (\<lambda>_.
     bind_c (unwrap_c ADD_OVERFLOW
               (uadd (profile h) current_ledger (execution_interval_ledgers task))) (\<lambda>next_allowed.
     bind_c (update_task (task\<lparr>next_allowed_execution := next_allowed\<rparr>)) (\<lambda>_.
     bind_c (get_keeper caller) (\<lambda>keeper.
     bind_c (unwrap_c ADD_OVERFLOW (uadd (profile h) (total_executions keeper) 1)) (\<lambda>total.
     bind_c (update_keeper
               (keeper\<lparr>total_executions := total, last_execution_ledger := current_ledger\<rparr>)) (\<lambda>_.
     if \<not> is_secondary then
       emit_task_executed (task_id task) caller current_ledger (micro_reward_per_run task)
     else skip_c))))))))"

definition execute_drip_split :: "'w Host \<Rightarrow> TaskId \<Rightarrow> Address \<Rightarrow> ('w, unit) contract" where
  "execute_drip_split h tid caller =
     bind_c (get_task tid) (\<lambda>task.
     bind_c (require_auth caller) (\<lambda>_.
     bind_c (gets_c sequence) (\<lambda>current_ledger.
     if current_ledger < next_allowed_execution task then throw_c TooEarlyToExecute
     else
       bind_c (unwrap_c SUB_OVERFLOW
                 (usub (profile h) current_ledger (next_allowed_execution task))) (\<lambda>ledgers_elapsed.
       if ledgers_elapsed = 0 then
         (if caller \<noteq> designated_keeper task then throw_c UnauthorizedExecutor
          else execute_distribution h task caller False)
       else if ledgers_elapsed \<le> 50 then
         (if caller = designated_keeper task then throw_c GracePeriodActive
          else
            bind_c (is_registered caller) (\<lambda>registered.
            if \<not> registered then throw_c CallerNotSecondaryEligible
            else
              bind_c (apply_slash h (designated_keeper task)) (\<lambda>(slash_amount, secondary_reward).
              bind_c (execute_distribution h task caller True) (\<lambda>_.
              bind_c (if 0 < sint secondary_reward
                      then pay_from_contract h caller secondary_reward else skip_c) (\<lambda>_.
              emit_task_executed_by_secondary tid caller (designated_keeper task) current_ledger
                slash_amount secondary_reward (micro_reward_per_run task))))))
       else
         bind_c (is_registered caller) (\<lambda>registered.
         if \<not> registered then throw_c UnauthorizedExecutor
         else
           bind_c (emit_missed_execution tid ledgers_elapsed) (\<lambda>_.
           execute_distribution h task caller False))))))"

section \<open>The window regions\<close>

text \<open>
  The table of the module documentation, over the natural numbers: no window arithmetic of the
  specification wraps around.
\<close>

datatype region = PreWindow | DesignatedWindow | GracePeriod | PostGrace

definition region_of :: "u32 \<Rightarrow> u32 \<Rightarrow> region" where
  "region_of next current =
     (if unat current < unat next then PreWindow
      else if unat current = unat next then DesignatedWindow
      else if unat current \<le> unat next + 50 then GracePeriod
      else PostGrace)"

fun admitted :: "region \<Rightarrow> bool \<Rightarrow> bool \<Rightarrow> bool" where
  "admitted PreWindow is_designated registered = False"
| "admitted DesignatedWindow is_designated registered = is_designated"
| "admitted GracePeriod is_designated registered = (\<not> is_designated \<and> registered)"
| "admitted PostGrace is_designated registered = registered"

fun refusal :: "region \<Rightarrow> bool \<Rightarrow> ContractError" where
  "refusal PreWindow is_designated = TooEarlyToExecute"
| "refusal DesignatedWindow is_designated = UnauthorizedExecutor"
| "refusal GracePeriod is_designated =
     (if is_designated then GracePeriodActive else CallerNotSecondaryEligible)"
| "refusal PostGrace is_designated = UnauthorizedExecutor"

lemma region_of_word:
  "region_of next current = PreWindow \<longleftrightarrow> current < next"
  "region_of next current = DesignatedWindow \<longleftrightarrow> next \<le> current \<and> current - next = 0"
  "region_of next current = GracePeriod \<longleftrightarrow>
     next \<le> current \<and> current - next \<noteq> 0 \<and> current - next \<le> 50"
  "region_of next current = PostGrace \<longleftrightarrow> next \<le> current \<and> \<not> current - next \<le> 50"
  by (auto simp: region_of_def word_less_nat_alt word_le_nat_alt unat_sub
      word_unat_eq_iff split: if_splits)

section \<open>The grace-period branch\<close>

definition grace_execution ::
  "'w Host \<Rightarrow> TaskId \<Rightarrow> ExecutionTask \<Rightarrow> Address \<Rightarrow> u32 \<Rightarrow> ('w, unit) contract" where
  "grace_execution h tid task caller current_ledger =
     bind_c (apply_slash h (designated_keeper task)) (\<lambda>(slash_amount, secondary_reward).
     bind_c (execute_distribution h task caller True) (\<lambda>_.
     bind_c (if 0 < sint secondary_reward
             then pay_from_contract h caller secondary_reward else skip_c) (\<lambda>_.
     emit_task_executed_by_secondary tid caller (designated_keeper task) current_ledger
       slash_amount secondary_reward (micro_reward_per_run task))))"

lemma execute_drip_split_no_task:
  "storage_ok e \<Longrightarrow> task_at e tid = None \<Longrightarrow> execute_drip_split h tid caller e = (Err TaskNotFound, e)"
  by (simp add: execute_drip_split_def comp_simps get_task_eq)

lemma execute_drip_split_no_auth:
  "storage_ok e \<Longrightarrow> task_at e tid = Some t \<Longrightarrow> \<not> auths e caller \<Longrightarrow>
     execute_drip_split h tid caller e = (Panic ''Error(Auth, InvalidAction)'', e)"
  by (simp add: execute_drip_split_def comp_simps get_task_eq)

lemma execute_drip_split_eq:
  assumes ok: "storage_ok e" and t: "task_at e tid = Some t" and auth: "auths e caller"
  shows "execute_drip_split h tid caller e =
    (case region_of (next_allowed_execution t) (sequence e) of
       PreWindow \<Rightarrow> (Err TooEarlyToExecute, e)
     | DesignatedWindow \<Rightarrow>
         if caller \<noteq> designated_keeper t then (Err UnauthorizedExecutor, e)
         else execute_distribution h t caller False e
     | GracePeriod \<Rightarrow>
         if caller = designated_keeper t then (Err GracePeriodActive, e)
         else if keeper_at e caller = None then (Err CallerNotSecondaryEligible, e)
         else grace_execution h tid t caller (sequence e) e
     | PostGrace \<Rightarrow>
         if keeper_at e caller = None then (Err UnauthorizedExecutor, e)
         else bind_c (emit_missed_execution tid (sequence e - next_allowed_execution t))
                (\<lambda>_. execute_distribution h t caller False) e)"
proof (cases "sequence e < next_allowed_execution t")
  case True
  then show ?thesis
    using auth region_of_word(1) [of "next_allowed_execution t" "sequence e"]
    by (simp add: execute_drip_split_def comp_simps get_task_eq [OF ok] t)
next
  case False
  then show ?thesis
    using auth region_of_word [of "next_allowed_execution t" "sequence e"]
    by (cases "region_of (next_allowed_execution t) (sequence e)")
      (simp_all add: execute_drip_split_def comp_simps get_task_eq [OF ok] t usub_def
        is_registered_eq [OF ok] grace_execution_def)
qed

section \<open>Payments and the shared success path\<close>

definition paid :: "'w Host \<Rightarrow> 'w Env \<Rightarrow> Address \<Rightarrow> i128 \<Rightarrow> 'w \<Rightarrow> bool" where
  "paid h e receiver amount w \<longleftrightarrow> (\<exists>token b.
     native_token_of e = Some token \<and>
     token_balance h token (self_address e) (world e) = Some b \<and> sint amount \<le> sint b \<and>
     token_transfer h token (self_address e) receiver amount (world e) = Some w)"

lemma paid_frames [simp]:
  "paid h (e\<lparr>events := x\<rparr>) = paid h e"
  "paid h (put_keeper k e) = paid h e"
  "paid h (put_task t e) = paid h e"
  "paid h (put_persistent d v e) = paid h e"
  by (simp_all add: paid_def fun_eq_iff)

lemma pay_from_contract_Ok_iff:
  assumes "storage_ok e"
  shows "pay_from_contract h receiver amount e = (Ok u, e') \<longleftrightarrow>
    (\<exists>w. paid h e receiver amount w \<and> e' = e\<lparr>world := w\<rparr>)"
  using typed_instance_reads(2) [OF assms]
  by (auto simp: pay_from_contract_def comp_Ok_iff host_Ok_iff comp_simps paid_def not_less
      split: if_splits)

definition task_exec_event :: "ExecutionTask \<Rightarrow> Address \<Rightarrow> u32 \<Rightarrow> event" where
  "task_exec_event t caller ledger = \<lparr>topics = [''task_exec''],
     data = [ScTaskId (task_id t), ScAddress caller, ScU32 ledger, ScI128 (micro_reward_per_run t)]\<rparr>"

definition executed_env ::
  "ExecutionTask \<Rightarrow> Address \<Rightarrow> bool \<Rightarrow> u32 \<Rightarrow> Keeper \<Rightarrow> u64 \<Rightarrow> 'w \<Rightarrow> 'w Env \<Rightarrow> 'w Env" where
  "executed_env t caller is_secondary next_allowed k tot w e =
     (put_keeper (k\<lparr>total_executions := tot, last_execution_ledger := sequence e\<rparr>)
       (put_task (t\<lparr>next_allowed_execution := next_allowed\<rparr>) (e\<lparr>world := w\<rparr>)))
       \<lparr>events := events e @ (if is_secondary then [] else [task_exec_event t caller (sequence e)])\<rparr>"

lemma events_unchanged: "events x = v \<Longrightarrow> x\<lparr>events := v\<rparr> = x"
  by auto

lemma execute_distribution_Ok_iff:
  assumes ok: "storage_ok e"
  shows "execute_distribution h t caller is_secondary e = (Ok u, e') \<longleftrightarrow>
    (\<exists>w1 w2 n k tot.
       invoke_contract h (target_drip_list t) ''distribute_wave_splits'' [] (world e) = Some w1 \<and>
       paid h (e\<lparr>world := w1\<rparr>) caller (micro_reward_per_run t) w2 \<and>
       uadd (profile h) (sequence e) (execution_interval_ledgers t) = Some n \<and>
       keeper_at e caller = Some k \<and> uadd (profile h) (total_executions k) 1 = Some tot \<and>
       e' = executed_env t caller is_secondary n k tot w2 e)"
    (is "?run = _ \<longleftrightarrow> ?effect")
proof
  assume "?run = (Ok u, e')"
  with ok show ?effect
    by (cases is_secondary)
      (fastforce simp: execute_distribution_def comp_Ok_iff host_Ok_iff comp_simps
        pay_from_contract_Ok_iff get_keeper_eq executed_env_def task_exec_event_def events_unchanged
        split: option.splits)+
next
  assume ?effect
  then obtain w1 w2 n k tot where w1: "invoke_contract h (target_drip_list t) ''distribute_wave_splits'' []
        (world e) = Some w1"
    and w2: "paid h (e\<lparr>world := w1\<rparr>) caller (micro_reward_per_run t) w2"
    and rest: "uadd (profile h) (sequence e) (execution_interval_ledgers t) = Some n"
      "keeper_at e caller = Some k" "uadd (profile h) (total_executions k) 1 = Some tot"
      "e' = executed_env t caller is_secondary n k tot w2 e"
    by blast
  have "pay_from_contract h caller (micro_reward_per_run t) (e\<lparr>world := w1\<rparr>) =
      (Ok (), e\<lparr>world := w2\<rparr>)"
    using ok w2 by (auto simp: pay_from_contract_Ok_iff)
  with ok w1 rest show "?run = (Ok u, e')"
    by (cases is_secondary)
      (simp_all add: execute_distribution_def comp_simps get_keeper_eq executed_env_def
        task_exec_event_def events_unchanged)
qed

section \<open>What a returning call changes\<close>

lemma executed_env_views:
  assumes "storage_ok e" and "keeper_at e caller = Some k" and "task_at e tid = Some t"
  shows "storage_ok (executed_env t caller sec n k tot w e)"
    and "task_at (executed_env t caller sec n k tot w e) =
           (task_at e)(tid \<mapsto> t\<lparr>next_allowed_execution := n\<rparr>)"
    and "keeper_at (executed_env t caller sec n k tot w e) = (keeper_at e)
           (caller \<mapsto> k\<lparr>total_executions := tot, last_execution_ledger := sequence e\<rparr>)"
    and "instance_st (executed_env t caller sec n k tot w e) = instance_st e"
    and "sequence (executed_env t caller sec n k tot w e) = sequence e"
    and "self_address (executed_env t caller sec n k tot w e) = self_address e"
    and "treasury_of (executed_env t caller sec n k tot w e) = treasury_of e"
    and "world (executed_env t caller sec n k tot w e) = w"
    and "events (executed_env t caller sec n k tot w e) =
           events e @ (if sec then [] else [task_exec_event t caller (sequence e)])"
  using assms keeper_at_address [OF assms(1,2)] task_at_task_id [OF assms(1,3)]
  by (auto simp: executed_env_def registry.get_put task_table.get_put fun_eq_iff)

lemma slash_shape_views:
  assumes "storage_ok e" and "keeper_at e a = Some k"
    and "slash_only h k k'"
    and "e' = (put_keeper k' (put_persistent TreasuryBalance (ScI128 treasury) e))
           \<lparr>events := events e @ evs\<rparr>"
  shows "storage_ok e'" and "keeper_at e' = (keeper_at e)(a \<mapsto> k')" and "task_at e' = task_at e"
    and "instance_st e' = instance_st e" and "sequence e' = sequence e"
    and "self_address e' = self_address e" and "world e' = world e" and "treasury_of e' = treasury"
proof -
  have "address k' = a"
    using keeper_at_address [OF assms(1,2)] slash_only_address [OF assms(3)] by simp
  with assms(1,4) show "storage_ok e'" and "keeper_at e' = (keeper_at e)(a \<mapsto> k')"
    and "task_at e' = task_at e" and "instance_st e' = instance_st e" and "sequence e' = sequence e"
    and "self_address e' = self_address e" and "world e' = world e" and "treasury_of e' = treasury"
    by (auto simp: registry.get_put fun_eq_iff storage_ok_put)
qed

definition missed_event :: "TaskId \<Rightarrow> u32 \<Rightarrow> event" where
  "missed_event tid elapsed = \<lparr>topics = [''missed''], data = [ScTaskId tid, ScU32 elapsed]\<rparr>"

definition task_sec_event ::
  "TaskId \<Rightarrow> ExecutionTask \<Rightarrow> Address \<Rightarrow> u32 \<Rightarrow> i128 \<Rightarrow> i128 \<Rightarrow> event" where
  "task_sec_event tid t caller ledger slash secondary =
     \<lparr>topics = [''task_sec''],
      data = [ScTaskId tid, ScAddress caller, ScAddress (designated_keeper t), ScU32 ledger,
              ScI128 slash, ScI128 secondary, ScI128 (micro_reward_per_run t)]\<rparr>"

text \<open>A call that returns passed the arbitration and ran the branch of its region.\<close>

lemma execute_drip_split_Ok:
  assumes ok: "storage_ok e" and ret: "execute_drip_split h tid caller e = (Ok u, e')"
  obtains t where "task_at e tid = Some t" and "auths e caller"
    and "admitted (region_of (next_allowed_execution t) (sequence e))
           (caller = designated_keeper t) (keeper_at e caller \<noteq> None)"
    and "region_of (next_allowed_execution t) (sequence e) = GracePeriod \<Longrightarrow>
           grace_execution h tid t caller (sequence e) e = (Ok (), e')"
    and "region_of (next_allowed_execution t) (sequence e) \<noteq> GracePeriod \<Longrightarrow>
           execute_distribution h t caller False
             (if region_of (next_allowed_execution t) (sequence e) = PostGrace
              then e\<lparr>events := events e @ [missed_event tid (sequence e - next_allowed_execution t)]\<rparr>
              else e) = (Ok (), e')"
proof -
  from ok ret obtain t where t: "task_at e tid = Some t"
    by (cases "task_at e tid") (auto simp: execute_drip_split_no_task)
  moreover from ok ret t have auth: "auths e caller"
    by (cases "auths e caller") (auto simp: execute_drip_split_no_auth)
  ultimately show ?thesis
    using ret that [of t]
    by (cases "region_of (next_allowed_execution t) (sequence e)")
      (auto simp: execute_drip_split_eq [OF ok t auth] comp_simps missed_event_def split: if_splits)
qed

text \<open>The grace branch, step by step: slash, distribution, secondary reward, event.\<close>

lemma grace_execution_Ok_iff:
  "grace_execution h tid t caller ledger e = (Ok u, e') \<longleftrightarrow>
     (\<exists>slash secondary e1 e2 e3. apply_slash h (designated_keeper t) e = (Ok (slash, secondary), e1) \<and>
        execute_distribution h t caller True e1 = (Ok (), e2) \<and>
        (if 0 < sint secondary then pay_from_contract h caller secondary e2 = (Ok (), e3) else e3 = e2) \<and>
        e' = e3\<lparr>events := events e3 @ [task_sec_event tid t caller ledger slash secondary]\<rparr>)"
proof -
  have pay: "(if b then m else skip_c) s = (Ok u, s') \<longleftrightarrow> (if b then m s = (Ok (), s') else s' = s)"
    for b and m :: "('w, unit) contract" and s u s'
    by (auto simp: comp_simps)
  show ?thesis
    by (simp add: grace_execution_def bind_c_Ok_iff split_paired_Ex pay)
      (auto simp: comp_simps task_sec_event_def)
qed

text \<open>
  The effect on the registry and the task table in all regions: exactly the executed task is
  rescheduled, the caller's counters move, and in the grace period the designated keeper's stake
  and flag are rewritten.
\<close>

definition counted :: "'w Host \<Rightarrow> u32 \<Rightarrow> Keeper \<Rightarrow> Keeper \<Rightarrow> bool" where
  "counted h ledger k k' \<longleftrightarrow> (\<exists>n. uadd (profile h) (total_executions k) 1 = Some n \<and>
     k' = k\<lparr>total_executions := n, last_execution_ledger := ledger\<rparr>)"

lemma execute_distribution_views:
  assumes ok: "storage_ok e" and t: "task_at e tid = Some t"
    and ret: "execute_distribution h t caller sec e = (Ok u, e')"
  obtains n k k' where "uadd (profile h) (sequence e) (execution_interval_ledgers t) = Some n"
    and "keeper_at e caller = Some k" and "counted h (sequence e) k k'" and "storage_ok e'"
    and "task_at e' = (task_at e)(tid \<mapsto> t\<lparr>next_allowed_execution := n\<rparr>)"
    and "keeper_at e' = (keeper_at e)(caller \<mapsto> k')"
    and "instance_st e' = instance_st e" and "sequence e' = sequence e"
    and "self_address e' = self_address e" and "treasury_of e' = treasury_of e"
    and "events e' = events e @ (if sec then [] else [task_exec_event t caller (sequence e)])"
proof -
  from ret obtain w n k tot where n: "uadd (profile h) (sequence e) (execution_interval_ledgers t) = Some n"
    and k: "keeper_at e caller = Some k" and tot: "uadd (profile h) (total_executions k) 1 = Some tot"
    and e': "e' = executed_env t caller sec n k tot w e"
    by (auto simp: execute_distribution_Ok_iff [OF ok])
  show ?thesis
    using that [OF n k] executed_env_views [OF ok k t] e' tot by (auto simp: counted_def)
qed

text \<open>The registry, the treasury and the event log after the grace-period slash and execution.\<close>

definition grace_effect ::
  "'w Host \<Rightarrow> TaskId \<Rightarrow> ExecutionTask \<Rightarrow> Address \<Rightarrow> 'w Env \<Rightarrow> (Address \<rightharpoonup> Keeper) \<Rightarrow> 'w Env \<Rightarrow> bool" where
  "grace_effect h tid t caller e m e' \<longleftrightarrow> caller \<noteq> designated_keeper t \<and>
     (\<exists>d d' slash secondary. keeper_at e (designated_keeper t) = Some d \<and>
        sint (stake_amount d) \<noteq> 0 \<and> (profile h = Dev \<longrightarrow> slash_in_range d e) \<and> slash_only h d d' \<and>
        m = (keeper_at e)(designated_keeper t \<mapsto> d') \<and>
        slash_paid h e d (slash, secondary) (treasury_of e') \<and>
        events e' = events e @
          [\<lparr>topics = [''slashed''],
            data = [ScAddress (designated_keeper t), ScI128 slash, ScI128 (stake_amount d')]\<rparr>,
           task_sec_event tid t caller (sequence e) slash secondary])"

definition plain_effect ::
  "TaskId \<Rightarrow> ExecutionTask \<Rightarrow> Address \<Rightarrow> 'w Env \<Rightarrow> (Address \<rightharpoonup> Keeper) \<Rightarrow> 'w Env \<Rightarrow> bool" where
  "plain_effect tid t caller e m e' \<longleftrightarrow>
     m = keeper_at e \<and> treasury_of e' = treasury_of e \<and>
     events e' = events e @
       (if region_of (next_allowed_execution t) (sequence e) = PostGrace
        then [missed_event tid (sequence e - next_allowed_execution t)] else []) @
       [task_exec_event t caller (sequence e)]"

lemma grace_execution_views:
  assumes ok: "storage_ok e" and t: "task_at e tid = Some t"
    and other: "caller \<noteq> designated_keeper t"
    and ret: "grace_execution h tid t caller (sequence e) e = (Ok u, e')"
  obtains n k k' m where "uadd (profile h) (sequence e) (execution_interval_ledgers t) = Some n"
    and "keeper_at e caller = Some k" and "counted h (sequence e) k k'" and "storage_ok e'"
    and "grace_effect h tid t caller e m e'"
    and "task_at e' = (task_at e)(tid \<mapsto> t\<lparr>next_allowed_execution := n\<rparr>)"
    and "keeper_at e' = m(caller \<mapsto> k')"
    and "instance_st e' = instance_st e" and "sequence e' = sequence e"
    and "self_address e' = self_address e"
proof -
  from ret obtain slash secondary e1 e2 e3 where
    sl: "apply_slash h (designated_keeper t) e = (Ok (slash, secondary), e1)"
    and di: "execute_distribution h t caller True e1 = (Ok (), e2)"
    and pay: "if 0 < sint secondary then pay_from_contract h caller secondary e2 = (Ok (), e3) else e3 = e2"
    and e': "e' = e3\<lparr>events := events e3 @ [task_sec_event tid t caller (sequence e) slash secondary]\<rparr>"
    by (auto simp: grace_execution_Ok_iff)
  from apply_slash_Ok_effect [OF ok sl] obtain d d' treasury where
    d: "keeper_at e (designated_keeper t) = Some d" "sint (stake_amount d) \<noteq> 0"
    and rng: "profile h = Dev \<longrightarrow> slash_in_range d e"
    and only: "slash_only h d d'" and sp: "slash_paid h e d (slash, secondary) treasury"
    and e1: "e1 = (put_keeper d' (put_persistent TreasuryBalance (ScI128 treasury) e))
           \<lparr>events := events e @ [\<lparr>topics = [''slashed''],
              data = [ScAddress (designated_keeper t), ScI128 slash, ScI128 (stake_amount d')]\<rparr>]\<rparr>"
    by (metis fst_conv)
  note v1 = slash_shape_views [OF ok d(1) only e1]
  from t v1(3) have t1: "task_at e1 tid = Some t" by simp
  from execute_distribution_views [OF v1(1) t1 di]
  obtain n k k' where n: "uadd (profile h) (sequence e1) (execution_interval_ledgers t) = Some n"
    and k: "keeper_at e1 caller = Some k" "counted h (sequence e1) k k'" and ok2: "storage_ok e2"
    and v2: "task_at e2 = (task_at e1)(tid \<mapsto> t\<lparr>next_allowed_execution := n\<rparr>)"
      "keeper_at e2 = (keeper_at e1)(caller \<mapsto> k')" "instance_st e2 = instance_st e1"
      "sequence e2 = sequence e1" "self_address e2 = self_address e1"
      "treasury_of e2 = treasury_of e1" "events e2 = events e1"
    by (metis append_Nil2)
  from pay obtain w where e3: "e3 = e2\<lparr>world := w\<rparr>"
    using pay_from_contract_Ok_iff [OF ok2] by (cases "0 < sint secondary") (auto intro: that [of "world e2"])
  have "grace_effect h tid t caller e ((keeper_at e)(designated_keeper t \<mapsto> d')) e'"
    unfolding grace_effect_def using other d rng only sp v1(8) v2(6,7)
    by (auto simp: e' e3 e1)
  then show ?thesis
    using that [of n k k' "(keeper_at e)(designated_keeper t \<mapsto> d')"] n k v1 v2 ok2 other
    by (auto simp: e' e3)
qed

lemma execute_drip_split_views:
  assumes ok: "storage_ok e" and ret: "execute_drip_split h tid caller e = (Ok u, e')"
  obtains t n k k' m where "task_at e tid = Some t"
    and "uadd (profile h) (sequence e) (execution_interval_ledgers t) = Some n"
    and "keeper_at e caller = Some k" and "counted h (sequence e) k k'" and "storage_ok e'"
    and "if region_of (next_allowed_execution t) (sequence e) = GracePeriod
         then grace_effect h tid t caller e m e' else plain_effect tid t caller e m e'"
    and "task_at e' = (task_at e)(tid \<mapsto> t\<lparr>next_allowed_execution := n\<rparr>)"
    and "keeper_at e' = m(caller \<mapsto> k')"
    and "instance_st e' = instance_st e" and "sequence e' = sequence e"
    and "self_address e' = self_address e"
proof -
  from execute_drip_split_Ok [OF ok ret] obtain t where t: "task_at e tid = Some t"
    and adm: "admitted (region_of (next_allowed_execution t) (sequence e))
           (caller = designated_keeper t) (keeper_at e caller \<noteq> None)"
    and grace: "region_of (next_allowed_execution t) (sequence e) = GracePeriod \<Longrightarrow>
           grace_execution h tid t caller (sequence e) e = (Ok (), e')"
    and plain: "region_of (next_allowed_execution t) (sequence e) \<noteq> GracePeriod \<Longrightarrow>
           execute_distribution h t caller False
             (if region_of (next_allowed_execution t) (sequence e) = PostGrace
              then e\<lparr>events := events e @ [missed_event tid (sequence e - next_allowed_execution t)]\<rparr>
              else e) = (Ok (), e')"
    by metis
  show ?thesis
  proof (cases "region_of (next_allowed_execution t) (sequence e) = GracePeriod")
    case True
    with adm have other: "caller \<noteq> designated_keeper t" by simp
    from grace_execution_views [OF ok t other grace [OF True]] show ?thesis
      using that t True by metis
  next
    case False
    let ?e = "if region_of (next_allowed_execution t) (sequence e) = PostGrace
              then e\<lparr>events := events e @ [missed_event tid (sequence e - next_allowed_execution t)]\<rparr>
              else e"
    have v: "storage_ok ?e" "task_at ?e = task_at e" "keeper_at ?e = keeper_at e"
      "instance_st ?e = instance_st e" "sequence ?e = sequence e" "self_address ?e = self_address e"
      "treasury_of ?e = treasury_of e"
      using ok by simp_all
    from t v(2) have t': "task_at ?e tid = Some t" by simp
    obtain n k k' where n: "uadd (profile h) (sequence ?e) (execution_interval_ledgers t) = Some n"
      and k: "keeper_at ?e caller = Some k" "counted h (sequence ?e) k k'" and ok': "storage_ok e'"
      and w: "task_at e' = (task_at ?e)(tid \<mapsto> t\<lparr>next_allowed_execution := n\<rparr>)"
        "keeper_at e' = (keeper_at ?e)(caller \<mapsto> k')" "instance_st e' = instance_st ?e"
        "sequence e' = sequence ?e" "self_address e' = self_address ?e"
        "treasury_of e' = treasury_of ?e"
        "events e' = events ?e @ (if False then [] else [task_exec_event t caller (sequence ?e)])"
      by (rule execute_distribution_views [OF v(1) t' plain [OF False]])
    have "plain_effect tid t caller e (keeper_at e) e'"
      using w(6,7) by (simp add: plain_effect_def)
    with False show ?thesis using that [of t n k k' "keeper_at e"] t n k ok' w(1-5) unfolding v by simp
  qed
qed

end
