(* ===== verification/Anchor_Contract.thy ===== *)
theory Anchor_Contract
  imports Anchor_Execution
begin

text \<open>
  The contract \<open>AnchorContract\<close> of \<open>the-anchor/src/lib.rs\<close> and the life of a deployed instance:
  its entry points, the host's treatment of a call (effects are committed when the call returns a
  value and discarded otherwise), and the step relation of the ledger, in which calls interleave
  with ledger closes and with changes made by other contracts.
\<close>

definition initialize :: "Address \<Rightarrow> Address \<Rightarrow> i128 \<Rightarrow> ('w, unit) contract" where
  "initialize admin native_token min_keeper_stake =
     bind_c (instance_has Admin) (\<lambda>present.
     if present then throw_c AlreadyInitialized
     else
       bind_c (require_auth admin) (\<lambda>_.
       bind_c (instance_set Admin (ScAddress admin)) (\<lambda>_.
       bind_c (instance_set NativeToken (ScAddress native_token)) (\<lambda>_.
       instance_set MinKeeperStake (ScI128 min_keeper_stake)))))"

text \<open>The entry points; reads return their value, the state-changing ones a unit or a task id.\<close>

datatype call =
    Initialize Address Address i128
  | RegisterKeeper Address i128
  | GetKeeper Address
  | ProvisionTask Address u32 i128 Address
  | GetTask TaskId
  | ExecuteDripSplit TaskId Address

datatype reply = RUnit | RKeeper Keeper | RTask ExecutionTask | RTaskId TaskId

definition reply_with :: "('a \<Rightarrow> reply) \<Rightarrow> ('w, 'a) contract \<Rightarrow> ('w, reply) contract" where
  "reply_with f m = bind_c m (\<lambda>a. return_c (f a))"

fun anchor_contract :: "'w Host \<Rightarrow> call \<Rightarrow> ('w, reply) contract" where
  "anchor_contract h (Initialize admin token min_stake) =
     reply_with (\<lambda>_. RUnit) (initialize admin token min_stake)"
| "anchor_contract h (RegisterKeeper keeper stake) =
     reply_with (\<lambda>_. RUnit) (register_keeper keeper stake)"
| "anchor_contract h (GetKeeper keeper) = reply_with RKeeper (get_keeper keeper)"
| "anchor_contract h (ProvisionTask target interval reward designated) =
     reply_with RTaskId (provision_task h target interval reward designated)"
| "anchor_contract h (GetTask tid) = reply_with RTask (get_task tid)"
| "anchor_contract h (ExecuteDripSplit tid caller) =
     reply_with (\<lambda>_. RUnit) (execute_drip_split h tid caller)"

definition host_call :: "('w, 'a) contract \<Rightarrow> ('w, 'a) contract" where
  "host_call m e = (case m e of (Ok a, e') \<Rightarrow> (Ok a, e') | (r, _) \<Rightarrow> (r, e))"

definition deployed :: "u32 \<Rightarrow> Address \<Rightarrow> 'w \<Rightarrow> 'w Env" where
  "deployed l self w =
     \<lparr>instance_st = Map.empty, persistent_st = Map.empty, events = [], sequence = l,
      auths = (\<lambda>_. False), self_address = self, world = w\<rparr>"

inductive anchor_step :: "'w Host \<Rightarrow> 'w Env \<Rightarrow> 'w Env \<Rightarrow> bool" for h where
  invoke: "anchor_step h e (snd (host_call (anchor_contract h c) (e\<lparr>auths := A\<rparr>)))"
| ledger_close: "sequence e < l \<Longrightarrow> anchor_step h e (e\<lparr>sequence := l\<rparr>)"
| outside: "anchor_step h e (e\<lparr>world := w\<rparr>)"

inductive reachable :: "'w Host \<Rightarrow> 'w Env \<Rightarrow> bool" for h where
  deploy: "reachable h (deployed l self w)"
| step: "reachable h e \<Longrightarrow> anchor_step h e e' \<Longrightarrow> reachable h e'"

inductive_cases anchor_stepE: "anchor_step h e e'"

section \<open>Calls that return\<close>

lemma initialize_eq:
  assumes "storage_ok e"
  shows "initialize a token m e =
    (if admin_of e \<noteq> None then (Err AlreadyInitialized, e)
     else if \<not> auths e a then (Panic ''Error(Auth, InvalidAction)'', e)
     else (Ok (), put_instance MinKeeperStake (ScI128 m)
            (put_instance NativeToken (ScAddress token) (put_instance Admin (ScAddress a) e))))"
proof -
  have "(\<exists>v. instance_st e Admin = Some v) \<longleftrightarrow> admin_of e \<noteq> None"
    using storage_okD(2) [OF assms, of Admin]
    by (cases "instance_st e Admin") (auto simp: admin_of_def dest!: instance_entry_okD(2))
  then show ?thesis
    by (cases "auths e a") (auto simp: initialize_def comp_simps)
qed

lemma reply_with_Ok: "reply_with f m e = (Ok r, e') \<longleftrightarrow> (\<exists>a. m e = (Ok a, e') \<and> r = f a)"
  by (auto simp: reply_with_def bind_c_Ok_iff comp_simps)

text \<open>
  The type of an entry point's answer: the declared result, and a record read back carries the key it
  was asked for.
\<close>

fun reply_ok :: "call \<Rightarrow> reply \<Rightarrow> bool" where
  "reply_ok (GetKeeper a) (RKeeper k) = (address k = a)"
| "reply_ok (GetTask i) (RTask t) = (task_id t = i)"
| "reply_ok (ProvisionTask _ _ _ _) (RTaskId i) = True"
| "reply_ok (Initialize _ _ _) RUnit = True"
| "reply_ok (RegisterKeeper _ _) RUnit = True"
| "reply_ok (ExecuteDripSplit _ _) RUnit = True"
| "reply_ok _ _ = False"

lemma reply_typed:
  assumes "storage_ok e" and "anchor_contract h c e = (Ok r, e')"
  shows "reply_ok c r"
  using assms keeper_at_address [OF assms(1)] task_at_task_id [OF assms(1)]
  by (cases c) (auto simp: reply_with_Ok get_keeper_eq get_task_eq split: option.splits)

lemma host_call_cases:
  obtains (returned) a e' where "m e = (Ok a, e')" and "host_call m e = (Ok a, e')"
  | (reverted) "snd (host_call m e) = e"
  by (cases "m e"; cases "fst (m e)") (auto simp: host_call_def)

text \<open>A successful call of each kind, on well-typed storage.\<close>

lemma returned_call_cases:
  assumes ok: "storage_ok e" and ret: "anchor_contract h c e = (Ok r, e')"
  obtains (read) "e' = e"
  | (init) a token m where "c = Initialize a token m" and "admin_of e = None" and "auths e a"
      and "e' = put_instance MinKeeperStake (ScI128 m)
            (put_instance NativeToken (ScAddress token) (put_instance Admin (ScAddress a) e))"
  | (register) a st where "c = RegisterKeeper a st" and "auths e a"
      and "sint (unwrap_or MIN_KEEPER_STAKE (min_stake_of e)) \<le> sint st" and "keeper_at e a = None"
      and "e' = (put_keeper (new_keeper a st) e)
            \<lparr>events := events e @ [\<lparr>topics = [''kpr_reg''], data = [ScAddress a, ScI128 st]\<rparr>]\<rparr>"
  | (provision) target interval reward d admin k cn n t where
      "c = ProvisionTask target interval reward d" and "admin_of e = Some admin" and "auths e admin"
      and "interval \<noteq> 0" and "0 < sint reward" and "keeper_at e d = Some k" and "\<not> ineligible k"
      and "uadd (profile h) (task_counter_of e) 1 = Some cn"
      and "uadd (profile h) (sequence e) interval = Some n"
      and "t = provisioned h e target interval reward d n" and "r = RTaskId (task_id t)"
      and "e' = (put_task t (put_instance TaskCounter (ScU32 cn) e))
             \<lparr>events := events e @ [task_prov_event t]\<rparr>"
  | (execute) tid caller where "c = ExecuteDripSplit tid caller"
      and "execute_drip_split h tid caller e = (Ok (), e')"
proof (cases c)
  case (Initialize a token m)
  with ok ret init show ?thesis
    by (auto simp: reply_with_Ok initialize_eq split: if_splits)
next
  case (RegisterKeeper a st)
  with ok ret register show ?thesis
    by (auto simp: reply_with_Ok register_keeper_eq not_less split: if_splits)
next
  case (GetKeeper a)
  with ok ret read show ?thesis
    by (auto simp: reply_with_Ok get_keeper_eq)
next
  case (ProvisionTask target interval reward d)
  with ok ret provision show ?thesis
    by (auto simp: reply_with_Ok provision_task_eq not_le Let_def split: if_splits option.splits)
next
  case (GetTask i)
  with ok ret read show ?thesis
    by (auto simp: reply_with_Ok get_task_eq)
next
  case (ExecuteDripSplit tid caller)
  with ret execute show ?thesis
    by (auto simp: reply_with_Ok)
qed

section \<open>The invariant of the contract\<close>

text \<open>
  Every stored task has a positive interval and reward and a registered designated keeper; the
  three configuration entries appear together; no task exists before they do.
\<close>

definition tasks_ok :: "'w Env \<Rightarrow> bool" where
  "tasks_ok e \<longleftrightarrow> (\<forall>i t. task_at e i = Some t \<longrightarrow>
     execution_interval_ledgers t \<noteq> 0 \<and> 0 < sint (micro_reward_per_run t) \<and>
     keeper_at e (designated_keeper t) \<noteq> None)"

definition config_ok :: "'w Env \<Rightarrow> bool" where
  "config_ok e \<longleftrightarrow>
     (native_token_of e = None \<longleftrightarrow> admin_of e = None) \<and>
     (min_stake_of e = None \<longleftrightarrow> admin_of e = None) \<and>
     (admin_of e = None \<longrightarrow> (\<forall>i. task_at e i = None))"

definition contract_inv :: "'w Env \<Rightarrow> bool" where
  "contract_inv e \<longleftrightarrow> storage_ok e \<and> tasks_ok e \<and> config_ok e"

lemma contract_inv_storage: "contract_inv e \<Longrightarrow> storage_ok e"
  by (simp add: contract_inv_def)

lemma contract_inv_frames [simp]:
  "contract_inv (e\<lparr>auths := A\<rparr>) = contract_inv e"
  "contract_inv (e\<lparr>sequence := l\<rparr>) = contract_inv e"
  "contract_inv (e\<lparr>world := w\<rparr>) = contract_inv e"
  "contract_inv (e\<lparr>events := x\<rparr>) = contract_inv e"
  by (simp_all add: contract_inv_def tasks_ok_def config_ok_def)

lemma contract_inv_deployed: "contract_inv (deployed l self w)"
  by (simp add: contract_inv_def storage_ok_def tasks_ok_def config_ok_def storage_views task_at_def
      deployed_def)

lemma execute_registry_dom:
  assumes "storage_ok e" and "execute_drip_split h tid caller e = (Ok u, e')"
  shows "keeper_at e' a = None \<longleftrightarrow> keeper_at e a = None"
  using assms by (rule execute_drip_split_views)
    (auto simp: grace_effect_def plain_effect_def split: if_splits)

lemma views_of_instance:
  assumes "instance_st e' = instance_st e"
  shows "admin_of e' = admin_of e" and "native_token_of e' = native_token_of e"
    and "min_stake_of e' = min_stake_of e" and "task_counter_of e' = task_counter_of e"
  using assms by (simp_all add: storage_views)

lemma execute_keeps_inv:
  assumes inv: "contract_inv e" and ret: "execute_drip_split h tid caller e = (Ok u, e')"
  shows "contract_inv e'"
proof -
  from inv have ok: "storage_ok e" and tasks: "tasks_ok e" and config: "config_ok e"
    by (simp_all add: contract_inv_def)
  obtain t n where t: "task_at e tid = Some t" and ok': "storage_ok e'"
    and tt: "task_at e' = (task_at e)(tid \<mapsto> t\<lparr>next_allowed_execution := n\<rparr>)"
    and ii: "instance_st e' = instance_st e"
    using execute_drip_split_views [OF ok ret] by metis
  from tasks t tt execute_registry_dom [OF ok ret] have "tasks_ok e'"
    by (auto simp: tasks_ok_def)
  moreover from config t tt views_of_instance [OF ii] have "config_ok e'"
    by (auto simp: config_ok_def)
  ultimately show ?thesis using ok' by (simp add: contract_inv_def)
qed

lemma returned_call_keeps_inv:
  assumes inv: "contract_inv e" and ret: "anchor_contract h c e = (Ok r, e')"
  shows "contract_inv e'"
proof -
  note facts = contract_inv_def tasks_ok_def config_ok_def storage_ok_put registry.get_put
    task_table.get_put provisioned_def new_keeper_def
  from contract_inv_storage [OF inv] ret show ?thesis
  proof (cases rule: returned_call_cases)
    case read
    with inv show ?thesis by simp
  next
    case init
    with inv show ?thesis by (auto simp: facts)
  next
    case register
    with inv show ?thesis by (auto simp: facts)
  next
    case provision
    with inv show ?thesis by (auto simp: facts)
  next
    case execute
    with inv show ?thesis by (blast intro: execute_keeps_inv)
  qed
qed

lemma step_keeps_inv:
  assumes "contract_inv e" and "anchor_step h e e'"
  shows "contract_inv e'"
  using assms(2,1)
proof (cases rule: anchor_step.cases)
  case (invoke c A)
  with assms(1) show ?thesis
    by (cases rule: host_call_cases [of "anchor_contract h c" "e\<lparr>auths := A\<rparr>"])
      (auto intro: returned_call_keeps_inv [of "e\<lparr>auths := A\<rparr>"])
qed simp_all

lemma reachable_contract_inv: "reachable h e \<Longrightarrow> contract_inv e"
  by (induction rule: reachable.induct) (auto intro: contract_inv_deployed step_keeps_inv)

end
