(* ===== verification/Anchor_Invariants.thy ===== *)
theory Anchor_Invariants
  imports Anchor_Contract
begin

text \<open>
  Invariants of the deployed contract beyond well-typed storage.  The locale
  \<open>ledger_invariant\<close> is the proof obligation they share: hold at deployment, do not look at
  authorisations or the outside world, survive a ledger close and every call that returns.  It is
  interpreted for the task identifiers, the stakes, and the agreement of the event log with the
  books.
\<close>

section \<open>The shared proof obligation\<close>

locale ledger_invariant =
  fixes h :: "'w Host" and I :: "'w Env \<Rightarrow> bool"
  assumes at_deploy: "I (deployed l self w)"
    and blind: "I (e\<lparr>auths := A\<rparr>) = I e" "I (e\<lparr>world := w\<rparr>) = I e"
    and on_close: "I e \<Longrightarrow> I (e\<lparr>sequence := l\<rparr>)"
    and on_return: "contract_inv e \<Longrightarrow> I e \<Longrightarrow> anchor_contract h c e = (Ok r, e') \<Longrightarrow> I e'"
begin

lemma on_step: "contract_inv e \<Longrightarrow> I e \<Longrightarrow> anchor_step h e e' \<Longrightarrow> I e'"
proof (erule anchor_stepE)
  fix c A
  assume "contract_inv e" and "I e" and e': "e' = snd (host_call (anchor_contract h c) (e\<lparr>auths := A\<rparr>))"
  then have inv: "contract_inv (e\<lparr>auths := A\<rparr>)" and I: "I (e\<lparr>auths := A\<rparr>)"
    by (simp_all add: blind)
  show "I e'"
    unfolding e'
    by (cases rule: host_call_cases [of "anchor_contract h c" "e\<lparr>auths := A\<rparr>"])
      (use I on_return [OF inv I] in simp_all)
qed (simp_all add: blind on_close)

lemma everywhere: "reachable h e \<Longrightarrow> I e"
  by (induction rule: reachable.induct) (auto intro: at_deploy on_step reachable_contract_inv)

end

section \<open>Task identifiers\<close>

text \<open>
  With overflow checks the counter never repeats: every stored task was hashed from a counter value
  below the current one.
\<close>

definition task_ids_ok :: "'w Host \<Rightarrow> 'w Env \<Rightarrow> bool" where
  "task_ids_ok h e \<longleftrightarrow> (profile h = Dev \<longrightarrow> (\<forall>i t. task_at e i = Some t \<longrightarrow>
     (\<exists>c l. unat c < unat (task_counter_of e) \<and> i = sha256 h (to_be_bytes c @ to_be_bytes l))))"

lemma task_ids_ok_return:
  assumes inv: "contract_inv e" and I: "task_ids_ok h e"
    and ret: "anchor_contract h c e = (Ok r, e')"
  shows "task_ids_ok h e'"
  using contract_inv_storage [OF inv] ret
proof (cases rule: returned_call_cases)
  case (provision target interval reward d admin k cn n t)
  then have cn: "unat cn = Suc (unat (task_counter_of e))" if "profile h = Dev"
    using that by (auto simp: uadd_Dev_Some uadd_Some_unat)
  have new: "task_id t = sha256 h (to_be_bytes (task_counter_of e) @ to_be_bytes (sequence e))"
    using provision(10) by (simp add: provisioned_def)
  have views: "task_at e' i = (if i = task_id t then Some t else task_at e i)"
    "task_counter_of e' = cn" for i
    using provision(12) by (simp_all add: task_table.get_put)
  show ?thesis
    unfolding task_ids_ok_def views
  proof (intro impI allI)
    fix i t'
    assume dev: "profile h = Dev" and t': "(if i = task_id t then Some t else task_at e i) = Some t'"
    show "\<exists>c l. unat c < unat cn \<and> i = sha256 h (to_be_bytes c @ to_be_bytes l)"
    proof (cases "i = task_id t")
      case True
      with new cn [OF dev] show ?thesis by (metis lessI)
    next
      case False
      with I dev t' show ?thesis
        unfolding cn [OF dev] task_ids_ok_def by (metis less_SucI)
    qed
  qed
next
  case (execute tid caller)
  from execute_drip_split_views [OF contract_inv_storage [OF inv] execute(2)]
  obtain t n where "task_at e tid = Some t"
    and "task_at e' = (task_at e)(tid \<mapsto> t\<lparr>next_allowed_execution := n\<rparr>)"
    and "instance_st e' = instance_st e" by metis
  with I show ?thesis
    using views_of_instance(4) [of e' e] by (auto simp: task_ids_ok_def)
qed (use I in \<open>auto simp: task_ids_ok_def\<close>)

interpretation task_ids: ledger_invariant h "task_ids_ok h" for h :: "'w Host"
proof
  show "task_ids_ok h (deployed l self w)" for l self w
    by (simp add: task_ids_ok_def deployed_def task_at_def)
  show "task_ids_ok h e'" if "contract_inv e" "task_ids_ok h e" "anchor_contract h c e = (Ok r, e')" for e e' c r
    using that by (rule task_ids_ok_return)
qed (simp_all add: task_ids_ok_def)

section \<open>Stakes stay positive\<close>

definition stakes_positive :: "'w Host \<Rightarrow> 'w Env \<Rightarrow> bool" where
  "stakes_positive h e \<longleftrightarrow>
     (profile h = Dev \<longrightarrow> 0 < sint (unwrap_or MIN_KEEPER_STAKE (min_stake_of e)) \<longrightarrow>
        (\<forall>a k. keeper_at e a = Some k \<longrightarrow> 0 < sint (stake_amount k)))"

lemma slashed_keeper_positive:
  "slash_in_range k e \<Longrightarrow> 0 < sint (stake_amount k) \<Longrightarrow> 0 < sint (stake_amount (slashed_keeper k))"
  using slashed_keeper_stake [of k] slash_of_keeps_positive [of "sint (stake_amount k)"]
  by (simp add: slash_in_range_def)

lemma stakes_positive_return:
  assumes inv: "contract_inv e" and I: "stakes_positive h e"
    and ret: "anchor_contract h c e = (Ok r, e')"
  shows "stakes_positive h e'"
  using contract_inv_storage [OF inv] ret
proof (cases rule: returned_call_cases)
  case (init a token m)
  then have "min_stake_of e = None"
    using inv by (simp add: contract_inv_def config_ok_def)
  with I init show ?thesis
    by (auto simp: stakes_positive_def MIN_KEEPER_STAKE_def)
next
  case (execute tid caller)
  from execute_drip_split_views [OF contract_inv_storage [OF inv] execute(2)]
  obtain t k k' m where k: "keeper_at e caller = Some k" "counted h (sequence e) k k'"
    and eff: "if region_of (next_allowed_execution t) (sequence e) = GracePeriod
         then grace_effect h tid t caller e m e' else plain_effect tid t caller e m e'"
    and e': "keeper_at e' = m(caller \<mapsto> k')" "instance_st e' = instance_st e" by metis
  have "0 < sint (stake_amount d)" if "profile h = Dev" "m a = Some d"
    "\<forall>a k. keeper_at e a = Some k \<longrightarrow> 0 < sint (stake_amount k)" for a d
    using that eff
    by (auto simp: grace_effect_def plain_effect_def slash_only_def intro!: slashed_keeper_positive
        split: if_splits)
  with I k e' show ?thesis
    using views_of_instance(3) [of e' e]
    by (auto simp: stakes_positive_def counted_def split: if_splits)
qed (use I in \<open>auto simp: stakes_positive_def registry.get_put new_keeper_def\<close>)

interpretation stakes: ledger_invariant h "stakes_positive h" for h :: "'w Host"
proof
  show "stakes_positive h (deployed l self w)" for l self w
    by (simp add: stakes_positive_def deployed_def keeper_at_def)
  show "stakes_positive h e'" if "contract_inv e" "stakes_positive h e" "anchor_contract h c e = (Ok r, e')" for e e' c r
    using that by (rule stakes_positive_return)
qed (simp_all add: stakes_positive_def)

section \<open>The event log is the books\<close>

text \<open>An execution event names the executing keeper second; \<open>task_sec\<close> carries slash and reward.\<close>

definition executed_by :: "Address \<Rightarrow> event \<Rightarrow> bool" where
  "executed_by a ev \<longleftrightarrow> (topics ev = [''task_exec''] \<or> topics ev = [''task_sec'']) \<and>
     (case data ev of _ # ScAddress b # _ \<Rightarrow> b = a | _ \<Rightarrow> False)"

definition executions_by :: "Address \<Rightarrow> event list \<Rightarrow> nat" where
  "executions_by a evs = length (filter (executed_by a) evs)"

definition retained :: "event \<Rightarrow> int" where
  "retained ev = (if topics ev = [''task_sec''] then
     (case data ev of
        _ # _ # _ # _ # ScI128 slash # ScI128 secondary # _ \<Rightarrow> sint slash - sint secondary
      | _ \<Rightarrow> 0) else 0)"

definition books_ok :: "'w Host \<Rightarrow> 'w Env \<Rightarrow> bool" where
  "books_ok h e \<longleftrightarrow> (profile h = Dev \<longrightarrow>
     sint (treasury_of e) = sum_list (map retained (events e)) \<and>
     (\<forall>a. executions_by a (events e) =
        (case keeper_at e a of None \<Rightarrow> 0 | Some k \<Rightarrow> unat (total_executions k))))"

lemma event_readings [simp]:
  "retained (task_sec_event tid t caller l slash secondary) = sint slash - sint secondary"
  "retained (task_exec_event t caller l) = 0" "retained (missed_event tid n) = 0"
  "retained (task_prov_event t) = 0"
  "retained \<lparr>topics = [''kpr_reg''], data = d\<rparr> = 0"
  "retained \<lparr>topics = [''slashed''], data = d\<rparr> = 0"
  "executed_by a (task_sec_event tid t caller l slash secondary) \<longleftrightarrow> caller = a"
  "executed_by a (task_exec_event t caller l) \<longleftrightarrow> caller = a"
  "\<not> executed_by a (missed_event tid n)" "\<not> executed_by a (task_prov_event t)"
  "\<not> executed_by a \<lparr>topics = [''kpr_reg''], data = d\<rparr>"
  "\<not> executed_by a \<lparr>topics = [''slashed''], data = d\<rparr>"
  by (simp_all add: retained_def executed_by_def task_sec_event_def task_exec_event_def
      missed_event_def task_prov_event_def)

lemma executions_by_append:
  "executions_by a (xs @ ys) = executions_by a xs + executions_by a ys"
  "executions_by a [] = 0"
  "executions_by a (ev # evs) = (if executed_by a ev then 1 else 0) + executions_by a evs"
  by (simp_all add: executions_by_def)

lemma counted_total:
  "profile h = Dev \<Longrightarrow> counted h l k k' \<Longrightarrow> unat (total_executions k') = Suc (unat (total_executions k))"
  by (auto simp: counted_def uadd_Dev_Some uadd_Some_unat)

lemma books_ok_execute:
  assumes ok: "storage_ok e" and I: "books_ok h e"
    and ret: "execute_drip_split h tid caller e = (Ok u, e')"
  shows "books_ok h e'"
proof -
  from execute_drip_split_views [OF ok ret]
  obtain t k k' m where k: "keeper_at e caller = Some k" "counted h (sequence e) k k'"
    and eff: "if region_of (next_allowed_execution t) (sequence e) = GracePeriod
         then grace_effect h tid t caller e m e' else plain_effect tid t caller e m e'"
    and e': "keeper_at e' = m(caller \<mapsto> k')" by metis
  show ?thesis
  proof (cases "region_of (next_allowed_execution t) (sequence e) = GracePeriod")
    case True
    with eff obtain d d' slash secondary where d: "caller \<noteq> designated_keeper t"
      "keeper_at e (designated_keeper t) = Some d" "slash_only h d d'"
      and m: "m = (keeper_at e)(designated_keeper t \<mapsto> d')"
      and sp: "slash_paid h e d (slash, secondary) (treasury_of e')"
      and ev: "events e' = events e @
          [\<lparr>topics = [''slashed''],
            data = [ScAddress (designated_keeper t), ScI128 slash, ScI128 (stake_amount d')]\<rparr>,
           task_sec_event tid t caller (sequence e) slash secondary]"
      unfolding grace_effect_def by auto
    show ?thesis
      using I k e' d m sp ev counted_total [of h _ k k'] slash_only_counters(1) [OF d(3)]
      by (auto simp: books_ok_def executions_by_append slash_paid_def split: option.splits)
  next
    case False
    with eff I k e' counted_total [of h _ k k'] show ?thesis
      by (auto simp: books_ok_def executions_by_append plain_effect_def split: option.splits)
  qed
qed

lemma books_ok_return:
  assumes inv: "contract_inv e" and I: "books_ok h e"
    and ret: "anchor_contract h c e = (Ok r, e')"
  shows "books_ok h e'"
  using contract_inv_storage [OF inv] ret
proof (cases rule: returned_call_cases)
  case (execute tid caller)
  with books_ok_execute [OF contract_inv_storage [OF inv] I] show ?thesis by blast
qed (use I in \<open>auto simp: books_ok_def registry.get_put new_keeper_def executions_by_append
    split: option.splits\<close>)

interpretation books: ledger_invariant h "books_ok h" for h :: "'w Host"
proof
  show "books_ok h (deployed l self w)" for l self w
    by (simp add: books_ok_def deployed_def keeper_at_def executions_by_append treasury_of_def)
  show "books_ok h e'" if "contract_inv e" "books_ok h e" "anchor_contract h c e = (Ok r, e')" for e e' c r
    using that by (rule books_ok_return)
qed (simp_all add: books_ok_def)

end
