(* ===== verification/Anchor_History.thy ===== *)
theory Anchor_History
  imports Anchor_Invariants
begin

text \<open>
  Histories of one deployment: what a later state keeps of an earlier one.  A relation between an earlier and a later state of one deployment.  It holds along every history
  once it is reflexive and transitive, does not look at authorisations, ledger number or world, and
  relates the two ends of every call that returns.
\<close>

locale ledger_history = ledger_invariant h I
  for h :: "'w Host" and I :: "'w Env \<Rightarrow> bool" +
  fixes R :: "'w Env \<Rightarrow> 'w Env \<Rightarrow> bool"
  assumes R_refl: "R e e"
    and R_trans: "R e e' \<Longrightarrow> R e' e'' \<Longrightarrow> R e e''"
    and R_frames: "R e (e\<lparr>auths := A\<rparr>)" "R e (e\<lparr>sequence := l\<rparr>)" "R e (e\<lparr>world := w\<rparr>)"
    and R_return: "contract_inv e \<Longrightarrow> I e \<Longrightarrow> anchor_contract h c e = (Ok r, e') \<Longrightarrow> R e e'"
begin

lemma R_step: "contract_inv e \<Longrightarrow> I e \<Longrightarrow> anchor_step h e e' \<Longrightarrow> R e e'"
proof (erule anchor_stepE)
  fix c A
  assume "contract_inv e" and "I e" and e': "e' = snd (host_call (anchor_contract h c) (e\<lparr>auths := A\<rparr>))"
  then have "contract_inv (e\<lparr>auths := A\<rparr>)" and "I (e\<lparr>auths := A\<rparr>)"
    by (simp_all add: blind)
  note ret = R_return [OF this]
  show "R e e'"
    unfolding e'
  proof (cases rule: host_call_cases [of "anchor_contract h c" "e\<lparr>auths := A\<rparr>"])
    case (returned a e'')
    with ret have "R (e\<lparr>auths := A\<rparr>) e''" by blast
    with returned show "R e (snd (host_call (anchor_contract h c) (e\<lparr>auths := A\<rparr>)))"
      using R_trans [OF R_frames(1)] by simp
  qed (simp add: R_frames)
qed (simp_all add: R_frames)

lemma along_from:
  "(anchor_step h)\<^sup>*\<^sup>* e e' \<Longrightarrow> contract_inv e \<Longrightarrow> I e \<Longrightarrow> contract_inv e' \<and> I e' \<and> R e e'"
proof (induction rule: rtranclp_induct)
  case (step e' e'')
  then have "contract_inv e'" and "I e'" and "R e e'" by auto
  then show ?case
    using step(2) R_step on_step step_keeps_inv by (blast intro: R_trans)
qed (simp add: R_refl)

lemma along: "(anchor_step h)\<^sup>*\<^sup>* e e' \<Longrightarrow> reachable h e \<Longrightarrow> reachable h e' \<and> R e e'"
proof
  assume "(anchor_step h)\<^sup>*\<^sup>* e e'" and "reachable h e"
  then show "R e e'" using along_from reachable_contract_inv everywhere by blast
  show "reachable h e'"
    using \<open>(anchor_step h)\<^sup>*\<^sup>* e e'\<close> \<open>reachable h e\<close>
    by (induction rule: rtranclp_induct) (auto intro: reachable.step)
qed

end

section \<open>Configuration\<close>

text \<open>The configuration written by \<open>initialize\<close> never changes.\<close>

definition config_kept :: "'w Env \<Rightarrow> 'w Env \<Rightarrow> bool" where
  "config_kept e e' \<longleftrightarrow> (admin_of e \<noteq> None \<longrightarrow> admin_of e' = admin_of e \<and>
     native_token_of e' = native_token_of e \<and> min_stake_of e' = min_stake_of e)"

lemma config_kept_return:
  assumes inv: "contract_inv e" and ret: "anchor_contract h c e = (Ok r, e')"
  shows "config_kept e e'"
  using contract_inv_storage [OF inv] ret
proof (cases rule: returned_call_cases)
  case (execute tid caller)
  from execute_drip_split_views [OF contract_inv_storage [OF inv] execute(2)]
  have "instance_st e' = instance_st e" by metis
  from views_of_instance [OF this] show ?thesis by (simp add: config_kept_def)
qed (auto simp: config_kept_def)

interpretation config_history: ledger_history h "task_ids_ok h" config_kept for h :: "'w Host"
proof
  show "config_kept e e'" if "contract_inv e" "task_ids_ok h e" "anchor_contract h c e = (Ok r, e')"
    for e e' c r
    using that(1,3) by (rule config_kept_return)
qed (simp_all add: config_kept_def)

section \<open>Keepers\<close>

text \<open>
  Keepers are never removed, a raised ineligibility flag stays, and with overflow checks a
  non-negative stake only shrinks while the execution count only grows.
\<close>

definition keeper_later :: "'w Host \<Rightarrow> Keeper \<Rightarrow> Keeper \<Rightarrow> bool" where
  "keeper_later h k k' \<longleftrightarrow> address k' = address k \<and> (ineligible k \<longrightarrow> ineligible k') \<and>
     (profile h = Dev \<longrightarrow> 0 \<le> sint (stake_amount k) \<longrightarrow>
        0 \<le> sint (stake_amount k') \<and> sint (stake_amount k') \<le> sint (stake_amount k)) \<and>
     (profile h = Dev \<longrightarrow> unat (total_executions k) \<le> unat (total_executions k'))"

definition keepers_kept :: "'w Host \<Rightarrow> 'w Env \<Rightarrow> 'w Env \<Rightarrow> bool" where
  "keepers_kept h e e' \<longleftrightarrow>
     (\<forall>a k. keeper_at e a = Some k \<longrightarrow> (\<exists>k'. keeper_at e' a = Some k' \<and> keeper_later h k k'))"

lemma keeper_later_refl: "keeper_later h k k"
  by (simp add: keeper_later_def)

lemma keeper_later_trans: "keeper_later h k k' \<Longrightarrow> keeper_later h k' k'' \<Longrightarrow> keeper_later h k k''"
  by (auto simp: keeper_later_def)

lemma counted_later:
  assumes "counted h l k k'"
  shows "keeper_later h k k'"
  using assms counted_total [of h l k k'] by (auto simp: keeper_later_def counted_def)

lemma slash_only_later:
  assumes "slash_only h k k'" and "profile h = Dev \<longrightarrow> slash_in_range k e"
  shows "keeper_later h k k'"
  using assms slash_only_address [OF assms(1)] slash_only_counters [OF assms(1)]
    slashed_keeper_stake [of k] slash_of_bounds [of "sint (stake_amount k)"]
  by (auto simp: keeper_later_def slash_in_range_def) (auto simp: slash_only_def)

lemma keepers_kept_return:
  assumes inv: "contract_inv e" and ret: "anchor_contract h c e = (Ok r, e')"
  shows "keepers_kept h e e'"
  using contract_inv_storage [OF inv] ret
proof (cases rule: returned_call_cases)
  case (execute tid caller)
  from execute_drip_split_views [OF contract_inv_storage [OF inv] execute(2)]
  obtain t k k' m where k: "keeper_at e caller = Some k" "counted h (sequence e) k k'"
    and eff: "if region_of (next_allowed_execution t) (sequence e) = GracePeriod
         then grace_effect h tid t caller e m e' else plain_effect tid t caller e m e'"
    and e': "keeper_at e' = m(caller \<mapsto> k')" by metis
  have "\<exists>d'. m a = Some d' \<and> keeper_later h d d' \<and> (a = caller \<longrightarrow> d' = d)"
    if d: "keeper_at e a = Some d" for a d
  proof (cases "region_of (next_allowed_execution t) (sequence e) = GracePeriod")
    case True
    with eff obtain s s' where "caller \<noteq> designated_keeper t"
      "keeper_at e (designated_keeper t) = Some s" "m = (keeper_at e)(designated_keeper t \<mapsto> s')"
      and "slash_only h s s'" "profile h = Dev \<longrightarrow> slash_in_range s e"
      by (auto simp: grace_effect_def)
    with slash_only_later [of h s s' e] d show ?thesis by (auto simp: keeper_later_refl)
  next
    case False
    with eff d show ?thesis by (simp add: plain_effect_def keeper_later_refl)
  qed
  note m = this
  show ?thesis
    unfolding keepers_kept_def e' using m k counted_later [OF k(2)] by fastforce
qed (auto simp: keepers_kept_def keeper_later_refl registry.get_put new_keeper_def)

interpretation well_formed: ledger_invariant h contract_inv for h :: "'w Host"
proof
  show "contract_inv e'" if "contract_inv e" "anchor_contract h c e = (Ok r, e')" for e e' c r
    using that by (rule returned_call_keeps_inv)
qed (simp_all add: contract_inv_deployed)

interpretation keeper_history: ledger_history h contract_inv "keepers_kept h" for h :: "'w Host"
proof
  show "keepers_kept h e e''" if "keepers_kept h e e'" "keepers_kept h e' e''" for e e' e''
    using that unfolding keepers_kept_def by (metis keeper_later_trans)
  show "keepers_kept h e e'" if "contract_inv e"
    "anchor_contract h c e = (Ok r, e')" for e e' c r
    using that by (rule keepers_kept_return)
qed (simp_all add: keepers_kept_def keeper_later_refl)

section \<open>Tasks\<close>

text \<open>
  Tasks are never removed or altered except for their next execution ledger, which with overflow
  checks never decreases.  That a new task does not overwrite an old one needs that the hash is
  collision free on the inputs the contract gives it.
\<close>

definition collision_free :: "'w Host \<Rightarrow> bool" where
  "collision_free h \<longleftrightarrow> inj_on (sha256 h) {bs. length bs = 8}"

lemma to_be_bytes_inj: "to_be_bytes a = to_be_bytes b \<longleftrightarrow> a = b"
proof
  assume eq: "to_be_bytes a = to_be_bytes b"
  show "a = b"
  proof (rule bit_word_eqI)
    fix n
    assume "n < LENGTH(32)"
    moreover have "bit (ucast (drop_bit k a) :: u8) i = bit (ucast (drop_bit k b) :: u8) i"
      if "k \<in> {0, 8, 16, 24}" for k i
      using eq that by (auto simp: to_be_bytes_def)
    then have "i < 8 \<Longrightarrow> bit a (k + i) = bit b (k + i)" if "k \<in> {0, 8, 16, 24}" for k i
      using that by (auto simp: bit_simps)
    note this [of "n div 8 * 8" "n mod 8"]
    moreover have "n div 8 * 8 + n mod 8 = n" by simp
    moreover have "n div 8 = 0 \<or> n div 8 = 1 \<or> n div 8 = 2 \<or> n div 8 = 3"
      using less_mult_imp_div_less [of n 4 8] \<open>n < LENGTH(32)\<close> by (simp, linarith)
    ultimately show "bit a n = bit b n" by simp
  qed
qed simp

lemma to_be_bytes_length [simp]: "length (to_be_bytes a) = 4"
  by (simp add: to_be_bytes_def)

lemma collision_free_eq:
  assumes "collision_free h"
  shows "sha256 h (to_be_bytes c @ to_be_bytes l) = sha256 h (to_be_bytes c' @ to_be_bytes l') \<longleftrightarrow>
    c = c' \<and> l = l'"
  using inj_on_eq_iff [OF assms [unfolded collision_free_def]]
  by (simp add: to_be_bytes_inj)

lemma fresh_task_id:
  assumes "collision_free h" and "profile h = Dev" and "task_ids_ok h e"
  shows "task_at e (sha256 h (to_be_bytes (task_counter_of e) @ to_be_bytes l)) = None"
  using assms by (fastforce simp: task_ids_ok_def collision_free_eq)

definition schedule_kept :: "'w Host \<Rightarrow> 'w Env \<Rightarrow> 'w Env \<Rightarrow> bool" where
  "schedule_kept h e e' \<longleftrightarrow> (profile h = Dev \<longrightarrow> collision_free h \<longrightarrow>
     (\<forall>i t. task_at e i = Some t \<longrightarrow> (\<exists>n. task_at e' i = Some (t\<lparr>next_allowed_execution := n\<rparr>) \<and>
        unat (next_allowed_execution t) \<le> unat n)))"

lemma schedule_kept_same: "task_at e' = task_at e \<Longrightarrow> schedule_kept h e e'"
  by (auto simp: schedule_kept_def intro!: exI [of _ "next_allowed_execution t" for t])

lemma schedule_kept_put:
  assumes upd: "task_at e' = (task_at e)(i \<mapsto> s)"
    and old: "\<And>t. profile h = Dev \<Longrightarrow> collision_free h \<Longrightarrow> task_at e i = Some t \<Longrightarrow>
       \<exists>n. s = t\<lparr>next_allowed_execution := n\<rparr> \<and> unat (next_allowed_execution t) \<le> unat n"
  shows "schedule_kept h e e'"
  unfolding schedule_kept_def
proof (intro impI allI)
  fix j t
  assume *: "profile h = Dev" "collision_free h" "task_at e j = Some t"
  show "\<exists>n. task_at e' j = Some (t\<lparr>next_allowed_execution := n\<rparr>) \<and>
      unat (next_allowed_execution t) \<le> unat n"
    using * old upd by (cases "j = i") (auto intro: exI [of _ "next_allowed_execution t"])
qed

lemma schedule_kept_trans:
  assumes "schedule_kept h e e'" and "schedule_kept h e' e''"
  shows "schedule_kept h e e''"
  unfolding schedule_kept_def
proof (intro impI allI)
  fix i t
  assume *: "profile h = Dev" "collision_free h" and "task_at e i = Some t"
  with assms(1) obtain n where n: "task_at e' i = Some (t\<lparr>next_allowed_execution := n\<rparr>)"
    "unat (next_allowed_execution t) \<le> unat n" by (auto simp: schedule_kept_def)
  with * assms(2) obtain n' where "task_at e'' i = Some (t\<lparr>next_allowed_execution := n'\<rparr>)"
    "unat n \<le> unat n'" by (fastforce simp: schedule_kept_def)
  with n show "\<exists>n. task_at e'' i = Some (t\<lparr>next_allowed_execution := n\<rparr>) \<and>
      unat (next_allowed_execution t) \<le> unat n" by auto
qed

lemma schedule_kept_execute:
  assumes ok: "storage_ok e" and ret: "execute_drip_split h tid caller e = (Ok u, e')"
  shows "schedule_kept h e e'"
proof -
  from execute_drip_split_views [OF ok ret]
  obtain t n where t: "task_at e tid = Some t"
    and n: "uadd (profile h) (sequence e) (execution_interval_ledgers t) = Some n"
    and tt: "task_at e' = (task_at e)(tid \<mapsto> t\<lparr>next_allowed_execution := n\<rparr>)" by metis
  moreover have "unat (next_allowed_execution t) \<le> unat (sequence e)"
  proof -
    from execute_drip_split_Ok [OF ok ret] t
    have "admitted (region_of (next_allowed_execution t) (sequence e))
           (caller = designated_keeper t) (keeper_at e caller \<noteq> None)" by auto
    then show ?thesis by (auto simp: region_of_def split: if_splits)
  qed
  moreover from n have "unat n = unat (sequence e) + unat (execution_interval_ledgers t)"
    if "profile h = Dev"
    using that by (auto simp: uadd_Dev_Some uadd_Some_unat)
  ultimately show ?thesis
    using schedule_kept_put [OF tt] by fastforce
qed

lemma schedule_kept_return:
  assumes inv: "contract_inv e" and ids: "task_ids_ok h e" and ret: "anchor_contract h c e = (Ok r, e')"
  shows "schedule_kept h e e'"
  using contract_inv_storage [OF inv] ret
proof (cases rule: returned_call_cases)
  case (provision target interval reward d admin k cn n t)
  then have upd: "task_at e' = (task_at e)(task_id t \<mapsto> t)"
    by (auto simp: task_table.get_put fun_eq_iff)
  have "task_at e (task_id t) = None" if "collision_free h" "profile h = Dev"
    using fresh_task_id [OF that ids] provision(10) by (simp add: provisioned_def)
  then show ?thesis
    by (intro schedule_kept_put [OF upd]) simp
next
  case (execute tid caller)
  with schedule_kept_execute [OF contract_inv_storage [OF inv]] show ?thesis by blast
qed (auto intro!: schedule_kept_same)

interpretation schedule_history: ledger_history h "task_ids_ok h" "schedule_kept h" for h :: "'w Host"
proof
  show "schedule_kept h e e''" if "schedule_kept h e e'" "schedule_kept h e' e''" for e e' e''
    using that by (rule schedule_kept_trans)
  show "schedule_kept h e e'" if "contract_inv e" "task_ids_ok h e"
    "anchor_contract h c e = (Ok r, e')" for e e' c r
    using that by (rule schedule_kept_return)
qed (simp_all add: schedule_kept_same)

end
