(* ===== verification/Anchor_Returns.thy ===== *)
theory Anchor_Returns
  imports Anchor_History
begin

text \<open>
  When \<open>execute_drip_split\<close> returns, which panics the entry points can raise, and what they pay.
  These are the shared lemmas behind the contract's liveness, error and payment properties.
\<close>

lemma reachable_storage: "reachable h e \<Longrightarrow> storage_ok e"
  by (rule contract_inv_storage [OF reachable_contract_inv])

section \<open>Success\<close>

text \<open>The designated keeper's slash can be applied and the secondary reward it yields paid.\<close>

definition slash_payable :: "'w Host \<Rightarrow> 'w Env \<Rightarrow> Address \<Rightarrow> Address \<Rightarrow> 'w \<Rightarrow> bool" where
  "slash_payable h e designated caller w \<longleftrightarrow> (\<exists>d. keeper_at e designated = Some d \<and>
     sint (stake_amount d) \<noteq> 0 \<and> slash_in_range d e \<and>
     (0 < secondary_reward_of (sint (stake_amount d)) \<longrightarrow>
        (\<exists>w'. paid h (e\<lparr>world := w\<rparr>) caller
           (word_of_int (secondary_reward_of (sint (stake_amount d)))) w')))"

lemma slashed_env_views:
  assumes "storage_ok e" and "keeper_at e a = Some d"
  shows "storage_ok (slashed_env a d e)" and "task_at (slashed_env a d e) = task_at e"
    and "keeper_at (slashed_env a d e) = (keeper_at e)(a \<mapsto> slashed_keeper d)"
    and "sequence (slashed_env a d e) = sequence e" and "world (slashed_env a d e) = world e"
    and "native_token_of (slashed_env a d e) = native_token_of e"
    and "self_address (slashed_env a d e) = self_address e"
  using assms keeper_at_address [OF assms]
  by (auto simp: slashed_env_def registry.get_put storage_ok_put fun_eq_iff)

lemma paid_cong:
  "native_token_of e' = native_token_of e \<Longrightarrow> self_address e' = self_address e \<Longrightarrow>
     world e' = world e \<Longrightarrow> paid h e' = paid h e"
  by (simp add: paid_def fun_eq_iff)

lemma paid_executed_env:
  "paid h (executed_env t caller sec n k tot w e) = paid h (e\<lparr>world := w\<rparr>)"
  by (rule paid_cong) (simp_all add: executed_env_def)

lemma grace_execution_returns:
  assumes ok: "storage_ok e" and other: "caller \<noteq> designated_keeper t"
    and t: "task_at e tid = Some t"
    and dist: "invoke_contract h (target_drip_list t) ''distribute_wave_splits'' [] (world e) = Some w1"
    and reward: "paid h (e\<lparr>world := w1\<rparr>) caller (micro_reward_per_run t) w2"
    and n: "uadd (profile h) (sequence e) (execution_interval_ledgers t) = Some n"
    and k: "keeper_at e caller = Some k" "uadd (profile h) (total_executions k) 1 = Some tot"
    and slash: "slash_payable h e (designated_keeper t) caller w2"
  shows "\<exists>e'. grace_execution h tid t caller l e = (Ok (), e')"
proof -
  from slash obtain d where d: "keeper_at e (designated_keeper t) = Some d"
    and nz: "sint (stake_amount d) \<noteq> 0" and rng: "slash_in_range d e"
    and pay: "0 < secondary_reward_of (sint (stake_amount d)) \<Longrightarrow>
      \<exists>w'. paid h (e\<lparr>world := w2\<rparr>) caller (word_of_int (secondary_reward_of (sint (stake_amount d)))) w'"
    by (auto simp: slash_payable_def)
  let ?s = "slashed_env (designated_keeper t) d e"
  let ?x = "executed_env t caller True n k tot w2 ?s"
  note v = slashed_env_views [OF ok d]
  have "paid h (?s\<lparr>world := w1\<rparr>) = paid h (e\<lparr>world := w1\<rparr>)"
    by (rule paid_cong) (simp_all add: v)
  with dist reward n k other have run: "execute_distribution h t caller True ?s = (Ok (), ?x)"
    by (auto simp: execute_distribution_Ok_iff [OF v(1)] v)
  have "paid h ?x = paid h (e\<lparr>world := w2\<rparr>)"
    unfolding paid_executed_env by (rule paid_cong) (simp_all add: v)
  moreover have "storage_ok ?x"
    using v k other t by (intro executed_env_views(1) [where tid = tid]) simp_all
  moreover have "i128_in_range (secondary_reward_of (sint (stake_amount d)))"
    using rng slash_intermediate_range(3) [of "sint (stake_amount d)"] by (simp add: slash_in_range_def)
  ultimately have "0 < sint (word_of_int (secondary_reward_of (sint (stake_amount d))) :: i128) \<longrightarrow>
      (\<exists>e3. pay_from_contract h caller
         (word_of_int (secondary_reward_of (sint (stake_amount d)))) ?x = (Ok (), e3))"
    using pay by (auto simp: pay_from_contract_Ok_iff sint_word_of_i128)
  then show ?thesis
    using apply_slash_eq [OF ok d nz rng, of h] run
    by (cases "0 < sint (word_of_int (secondary_reward_of (sint (stake_amount d))) :: i128)")
      (auto simp: grace_execution_Ok_iff)
qed

lemma execute_drip_split_returns:
  assumes ok: "storage_ok e" and t: "task_at e tid = Some t" and auth: "auths e caller"
    and adm: "admitted (region_of (next_allowed_execution t) (sequence e))
           (caller = designated_keeper t) (keeper_at e caller \<noteq> None)"
    and dist: "invoke_contract h (target_drip_list t) ''distribute_wave_splits'' [] (world e) = Some w1"
    and reward: "paid h (e\<lparr>world := w1\<rparr>) caller (micro_reward_per_run t) w2"
    and n: "uadd (profile h) (sequence e) (execution_interval_ledgers t) = Some n"
    and k: "keeper_at e caller = Some k" "uadd (profile h) (total_executions k) 1 = Some tot"
    and slash: "region_of (next_allowed_execution t) (sequence e) = GracePeriod \<Longrightarrow>
       slash_payable h e (designated_keeper t) caller w2"
  shows "\<exists>e'. execute_drip_split h tid caller e = (Ok (), e')"
proof (cases "region_of (next_allowed_execution t) (sequence e) = GracePeriod")
  case True
  with adm grace_execution_returns [OF ok _ t dist reward n k slash] show ?thesis
    by (simp add: execute_drip_split_eq [OF ok t auth])
next
  case False
  have "\<exists>e''. execute_distribution h t caller False (e\<lparr>events := x\<rparr>) = (Ok (), e'')" for x
    using ok dist reward n k by (simp add: execute_distribution_Ok_iff) (auto simp: paid_def)
  note this [of "events e"] this
  with False adm k show ?thesis
    unfolding execute_drip_split_eq [OF ok t auth]
    by (cases "region_of (next_allowed_execution t) (sequence e)") (auto simp: comp_simps)
qed

section \<open>Panics\<close>

text \<open>
  The panics a well-typed, initialised contract can raise: a missing authorisation, a callee that
  traps and, with overflow checks, an arithmetic overflow.
\<close>

abbreviation AUTH_ERROR :: string where "AUTH_ERROR \<equiv> ''Error(Auth, InvalidAction)''"
abbreviation CALLEE_ERROR :: string where "CALLEE_ERROR \<equiv> ''Error(Context, InvalidAction)''"

definition known_panics :: "cargo_profile \<Rightarrow> string set" where
  "known_panics p = {AUTH_ERROR, CALLEE_ERROR} \<union>
     (if p = Dev then {ADD_OVERFLOW, SUB_OVERFLOW, MUL_OVERFLOW} else {})"

definition panics_within :: "string set \<Rightarrow> ('s, 'e, 'a) comp \<Rightarrow> 's \<Rightarrow> bool" where
  "panics_within S m s \<longleftrightarrow> (\<forall>msg. fst (m s) = Panic msg \<longrightarrow> msg \<in> S)"

lemma panics_bind:
  assumes "panics_within S m s" and "\<And>a s'. m s = (Ok a, s') \<Longrightarrow> panics_within S (f a) s'"
  shows "panics_within S (bind_c m f) s"
  using assms by (cases "m s"; cases "fst (m s)") (auto simp: panics_within_def bind_c_def)

lemma panics_if:
  "(b \<Longrightarrow> panics_within S m s) \<Longrightarrow> (\<not> b \<Longrightarrow> panics_within S n s) \<Longrightarrow> panics_within S (if b then m else n) s"
  by simp

lemma panics_prim [simp]:
  "panics_within S (return_c a) s" "panics_within S (throw_c err) s" "panics_within S (gets_c q) s"
  "panics_within S (modify_c u) s" "panics_within S skip_c s"
  "panics_within S (panic_c msg) s \<longleftrightarrow> msg \<in> S" "panics_within S (ok_or_c err x) s"
  "panics_within S (unwrap_c msg x) s \<longleftrightarrow> x = None \<longrightarrow> msg \<in> S"
  by (cases x; auto simp: panics_within_def comp_simps)+

lemma panics_host [simp]:
  "panics_within S (publish ts ds) e" "panics_within S (instance_set k v) e"
  "panics_within S (persistent_set k v) e" "panics_within S (update_task t) e"
  "panics_within S (update_keeper kp) e"
  "AUTH_ERROR \<in> S \<Longrightarrow> panics_within S (require_auth a) e"
  "CALLEE_ERROR \<in> S \<Longrightarrow> panics_within S (foreign_call g) e"
  by (auto simp: panics_within_def comp_simps require_auth_def foreign_call_def split: option.splits)

lemma known_panics_mem [simp]:
  "AUTH_ERROR \<in> known_panics p" "CALLEE_ERROR \<in> known_panics p"
  "uadd p a b = None \<Longrightarrow> ADD_OVERFLOW \<in> known_panics p"
  "usub p a b = None \<Longrightarrow> SUB_OVERFLOW \<in> known_panics p"
  "i128_add p x y = None \<Longrightarrow> ADD_OVERFLOW \<in> known_panics p"
  "i128_sub p x y = None \<Longrightarrow> SUB_OVERFLOW \<in> known_panics p"
  "i128_mul p x y = None \<Longrightarrow> MUL_OVERFLOW \<in> known_panics p"
  by (cases p; simp add: known_panics_def uadd_def usub_def i128_add_def i128_sub_def i128_mul_def
      i128_arith_def)+

lemma i128_div_total: "0 < sint b \<Longrightarrow> i128_div a b \<noteq> None"
  by (simp add: i128_div_def i128_in_range_sdiv)

lemma pay_panics:
  assumes ok: "storage_ok e" and tok: "native_token_of e \<noteq> None"
  shows "panics_within (known_panics p) (pay_from_contract h r n) e"
proof -
  from tok obtain token where "native_token_of e = Some token" by auto
  then show ?thesis
    unfolding pay_from_contract_def panics_within_def
    by (cases "token_balance h token (self_address e) (world e)")
      (auto simp: typed_instance_reads(2) [OF ok] comp_simps foreign_call_def split: option.splits)
qed

lemma panics_reads [simp]:
  "storage_ok e \<Longrightarrow> panics_within S (get_keeper a) e"
  "storage_ok e \<Longrightarrow> panics_within S (get_task i) e"
  "storage_ok e \<Longrightarrow> panics_within S (is_registered a) e"
  by (simp_all add: panics_within_def get_keeper_eq get_task_eq is_registered_eq split: option.splits)

lemma distribution_panics:
  assumes ok: "storage_ok e" and tok: "native_token_of e \<noteq> None"
  shows "panics_within (known_panics (profile h)) (execute_distribution h t caller sec) e"
  unfolding execute_distribution_def
  using assms
  by (auto intro!: panics_bind panics_if pay_panics
      simp: foreign_call_Ok_iff pay_from_contract_Ok_iff comp_Ok_iff comp_simps get_keeper_eq emit_defs)

lemma slash_panics:
  assumes ok: "storage_ok e"
  shows "panics_within (known_panics (profile h)) (apply_slash h a) e"
proof (cases "keeper_at e a")
  case (Some k)
  note [simp] = typed_instance_reads(5) [OF ok] get_keeper_eq [OF ok]
  have "panics_within S (persistent_get as_i128 TreasuryBalance) e" for S
    by (simp add: panics_within_def)
  with Some ok show ?thesis
    unfolding apply_slash_def Let_def
    by (intro panics_bind panics_if) (auto simp: comp_Ok_iff comp_simps emit_defs i128_div_total)
qed (use ok in \<open>simp add: panics_within_def apply_slash_unknown\<close>)

lemma grace_panics:
  assumes ok: "storage_ok e" and tok: "native_token_of e \<noteq> None" and t: "task_at e tid = Some t"
  shows "panics_within (known_panics (profile h)) (grace_execution h tid t caller l) e"
  unfolding grace_execution_def
proof (intro panics_bind slash_panics [OF ok], clarify)
  fix slash secondary e1
  assume sl: "apply_slash h (designated_keeper t) e = (Ok (slash, secondary), e1)"
  from apply_slash_Ok_effect [OF ok sl] obtain d d' treasury where
    d: "keeper_at e (designated_keeper t) = Some d" and only: "slash_only h d d'"
    and e1: "e1 = (put_keeper d' (put_persistent TreasuryBalance (ScI128 treasury) e))
           \<lparr>events := events e @ [\<lparr>topics = [''slashed''],
              data = [ScAddress (designated_keeper t), ScI128 slash, ScI128 (stake_amount d')]\<rparr>]\<rparr>"
    by (metis fst_conv)
  note v1 = slash_shape_views [OF ok d only e1]
  have n1: "native_token_of e1 \<noteq> None"
    using tok views_of_instance(2) [OF v1(4)] by simp
  have n2: "storage_ok e2 \<and> native_token_of e2 \<noteq> None"
    if "execute_distribution h t caller True e1 = (Ok (), e2)" for e2
    using execute_distribution_views [OF v1(1) _ that, of tid] t v1(3) n1 views_of_instance(2) [of e2 e1]
    by metis
  show "panics_within (known_panics (profile h))
     (bind_c (execute_distribution h t caller True) (\<lambda>_.
      bind_c (if 0 < sint secondary then pay_from_contract h caller secondary else skip_c) (\<lambda>_.
      emit_task_executed_by_secondary tid caller (designated_keeper t) l slash secondary
        (micro_reward_per_run t)))) e1"
    using n1 n2 by (intro panics_bind panics_if distribution_panics [OF v1(1)] pay_panics)
      (auto simp: emit_defs)
qed

lemma execute_panics:
  assumes ok: "storage_ok e" and tok: "\<And>t. task_at e tid = Some t \<Longrightarrow> native_token_of e \<noteq> None"
  shows "panics_within (known_panics (profile h)) (execute_drip_split h tid caller) e"
proof (cases "task_at e tid")
  case None
  with ok show ?thesis by (simp add: panics_within_def execute_drip_split_no_task)
next
  case (Some t)
  show ?thesis
  proof (cases "auths e caller")
    case False
    with ok Some show ?thesis by (simp add: panics_within_def execute_drip_split_no_auth)
  next
    case True
    have "panics_within (known_panics (profile h)) (execute_distribution h t caller False)
        (e\<lparr>events := x\<rparr>)" for x
      using ok tok [OF Some] by (intro distribution_panics) simp_all
    note this [of "events e"] this grace_panics [OF ok tok [OF Some] Some, of h caller "sequence e"]
    then show ?thesis
      unfolding panics_within_def execute_drip_split_eq [OF ok Some True]
      by (cases "region_of (next_allowed_execution t) (sequence e)") (auto simp: comp_simps)
  qed
qed

lemma panics_reply: "panics_within S m e \<Longrightarrow> panics_within S (reply_with f m) e"
  unfolding reply_with_def by (rule panics_bind) simp_all

lemma entry_point_panics:
  assumes inv: "contract_inv e"
  shows "panics_within (known_panics (profile h)) (anchor_contract h c) e"
proof -
  note ok = contract_inv_storage [OF inv]
  have tok: "native_token_of e \<noteq> None" if "task_at e i = Some t" for i t
    using inv that by (auto simp: contract_inv_def config_ok_def)
  have "panics_within (known_panics (profile h)) (initialize a token m) e" for a token m
    by (simp add: panics_within_def initialize_eq [OF ok])
  moreover have "panics_within (known_panics (profile h)) (register_keeper a st) e" for a st
    by (simp add: panics_within_def register_keeper_eq [OF ok])
  moreover have "panics_within (known_panics (profile h)) (provision_task h a i r d) e" for a i r d
    by (simp add: panics_within_def provision_task_eq [OF ok] Let_def split: option.splits)
  ultimately show ?thesis
    using ok tok by (cases c) (auto intro!: panics_reply execute_panics)
qed

section \<open>Refusals\<close>

lemma refused_eq:
  assumes ok: "storage_ok e" and t: "task_at e tid = Some t" and auth: "auths e caller"
    and adm: "\<not> admitted (region_of (next_allowed_execution t) (sequence e))
           (caller = designated_keeper t) (keeper_at e caller \<noteq> None)"
  shows "execute_drip_split h tid caller e =
    (Err (refusal (region_of (next_allowed_execution t) (sequence e)) (caller = designated_keeper t)), e)"
  using adm unfolding execute_drip_split_eq [OF ok t auth]
  by (cases "region_of (next_allowed_execution t) (sequence e)") auto

section \<open>The grace period without wrap-around\<close>

lemma slashed_env_treasury:
  "treasury_of (slashed_env a k e) =
     word_of_int (sint (treasury_of e) + treasury_portion_of (sint (stake_amount k)))"
  by (simp add: slashed_env_def del: of_int_add)

lemma grace_execution_exact:
  assumes exact: "slash_exact h e (designated_keeper t)" and ok: "storage_ok e"
    and t: "task_at e tid = Some t" and other: "caller \<noteq> designated_keeper t"
    and ret: "grace_execution h tid t caller (sequence e) e = (Ok u, e')"
  obtains d where "keeper_at e (designated_keeper t) = Some d" and "sint (stake_amount d) \<noteq> 0"
    and "slash_in_range d e" and "keeper_at e' (designated_keeper t) = Some (slashed_keeper d)"
    and "sint (treasury_of e') = sint (treasury_of e) + treasury_portion_of (sint (stake_amount d))"
    and "events e' = events e @ [slashed_event (designated_keeper t) d,
           task_sec_event tid t caller (sequence e) (word_of_int (slash_of (sint (stake_amount d))))
             (word_of_int (secondary_reward_of (sint (stake_amount d))))]"
proof -
  from ret obtain slash secondary e1 e2 e3 where
    sl: "apply_slash h (designated_keeper t) e = (Ok (slash, secondary), e1)"
    and di: "execute_distribution h t caller True e1 = (Ok (), e2)"
    and pay: "if 0 < sint secondary then pay_from_contract h caller secondary e2 = (Ok (), e3) else e3 = e2"
    and e': "e' = e3\<lparr>events := events e3 @ [task_sec_event tid t caller (sequence e) slash secondary]\<rparr>"
    by (auto simp: grace_execution_Ok_iff)
  from apply_slash_exact [OF exact ok sl] obtain d where d: "keeper_at e (designated_keeper t) = Some d"
    "sint (stake_amount d) \<noteq> 0" "slash_in_range d e"
    and r: "slash = word_of_int (slash_of (sint (stake_amount d)))"
      "secondary = word_of_int (secondary_reward_of (sint (stake_amount d)))"
    and e1: "e1 = slashed_env (designated_keeper t) d e" by auto
  note v1 = slashed_env_views [OF ok d(1), folded e1]
  have t1: "task_at e1 tid = Some t" using t v1(2) by simp
  from execute_distribution_views [OF v1(1) t1 di] obtain k' where
    v2: "storage_ok e2" "keeper_at e2 = (keeper_at e1)(caller \<mapsto> k')" "treasury_of e2 = treasury_of e1"
      "events e2 = events e1" by (metis append_Nil2)
  from pay obtain w where e3: "e3 = e2\<lparr>world := w\<rparr>"
    using pay_from_contract_Ok_iff [OF v2(1)] by (cases "0 < sint secondary") (auto intro: that [of "world e2"])
  have "sint (treasury_of e1) = sint (treasury_of e) + treasury_portion_of (sint (stake_amount d))"
    using d(3) unfolding e1 slashed_env_treasury slash_in_range_def by (intro sint_word_of_i128) simp
  moreover have "events e1 = events e @ [slashed_event (designated_keeper t) d]"
    by (simp add: e1 slashed_env_def)
  ultimately show ?thesis
    using that [OF d] v1(3) v2 other r by (simp add: e' e3)
qed

section \<open>Payments\<close>

text \<open>\<open>moved bal self a n w w'\<close>: exactly \<open>n\<close> went from \<open>self\<close> to \<open>a\<close> and no other holder changed.\<close>

definition moved ::
  "(Address \<Rightarrow> 'w \<Rightarrow> i128 option) \<Rightarrow> Address \<Rightarrow> Address \<Rightarrow> int \<Rightarrow> 'w \<Rightarrow> 'w \<Rightarrow> bool" where
  "moved bal self a n w w' \<longleftrightarrow>
     (\<exists>x y x' y'. bal self w = Some x \<and> bal a w = Some y \<and>
        bal self w' = Some x' \<and> bal a w' = Some y' \<and>
        sint x' = sint x - n \<and> sint y' = sint y + n) \<and>
     (\<forall>c. c \<noteq> self \<longrightarrow> c \<noteq> a \<longrightarrow> bal c w' = bal c w)"

lemma moved_none: "bal self w \<noteq> None \<Longrightarrow> bal a w \<noteq> None \<Longrightarrow> moved bal self a 0 w w"
  by (auto simp: moved_def)

lemma moved_trans: "moved bal self a n w w' \<Longrightarrow> moved bal self a m w' w'' \<Longrightarrow> moved bal self a (n + m) w w''"
  by (auto simp: moved_def)

lemma paid_moves:
  assumes sep: "sep41_token (token_balance h token) (token_transfer h token)"
    and tok: "native_token_of e = Some token" and other: "caller \<noteq> self_address e"
    and known: "token_balance h token caller (world e) \<noteq> None"
    and paid: "paid h e caller n w"
  shows "moved (token_balance h token) (self_address e) caller (sint n) (world e) w"
proof -
  from paid tok obtain b where b: "token_balance h token (self_address e) (world e) = Some b"
    and tr: "token_transfer h token (self_address e) caller n (world e) = Some w"
    by (auto simp: paid_def)
  from known obtain c where c: "token_balance h token caller (world e) = Some c" by auto
  have law: "transfer a b n w = Some w' \<Longrightarrow> a \<noteq> b \<Longrightarrow> bal a w = Some x \<Longrightarrow> bal b w = Some y \<Longrightarrow>
      \<exists>x' y'. bal a w' = Some x' \<and> sint x' = sint x - sint n \<and>
        bal b w' = Some y' \<and> sint y' = sint y + sint n"
    if "sep41_token bal transfer" for bal transfer a b n w w' x y
    using that unfolding sep41_token_def by blast
  from law [OF sep tr _ b c] other
  have "\<exists>x' y'. token_balance h token (self_address e) w = Some x' \<and> sint x' = sint b - sint n \<and>
      token_balance h token caller w = Some y' \<and> sint y' = sint c + sint n"
    by simp
  moreover from sep tr have "token_balance h token a w = token_balance h token a (world e)"
    if "a \<noteq> self_address e" "a \<noteq> caller" for a
    using that unfolding sep41_token_def by blast
  ultimately show ?thesis using b c by (auto simp: moved_def)
qed

text \<open>What a run of the task owes its executor: the reward and, in the grace period, half the slash.\<close>

definition due :: "'w Env \<Rightarrow> ExecutionTask \<Rightarrow> int" where
  "due e t = sint (micro_reward_per_run t) +
     (if region_of (next_allowed_execution t) (sequence e) = GracePeriod
      then (case keeper_at e (designated_keeper t) of
              None \<Rightarrow> 0
            | Some d \<Rightarrow> max 0 (secondary_reward_of (sint (stake_amount d))))
      else 0)"

lemma distribution_pays:
  assumes ok: "storage_ok e"
    and sep: "sep41_token (token_balance h token) (token_transfer h token)"
    and tok: "native_token_of e = Some token" and other: "caller \<noteq> self_address e"
    and dist: "invoke_contract h (target_drip_list t) ''distribute_wave_splits'' [] (world e) = Some w"
    and known: "token_balance h token caller w \<noteq> None"
    and ret: "execute_distribution h t caller sec e = (Ok u, e')"
  shows "moved (token_balance h token) (self_address e) caller (sint (micro_reward_per_run t)) w (world e')"
proof -
  from ret dist obtain n k tot w2 where "paid h (e\<lparr>world := w\<rparr>) caller (micro_reward_per_run t) w2"
    and "e' = executed_env t caller sec n k tot w2 e"
    by (auto simp: execute_distribution_Ok_iff [OF ok])
  then show ?thesis
    using paid_moves [OF sep, of "e\<lparr>world := w\<rparr>" caller] tok other known by (simp add: executed_env_def)
qed

lemma grace_pays:
  assumes exact: "slash_exact h e (designated_keeper t)" and ok: "storage_ok e" and t: "task_at e tid = Some t"
    and grace: "region_of (next_allowed_execution t) (sequence e) = GracePeriod"
    and sep: "sep41_token (token_balance h token) (token_transfer h token)"
    and tok: "native_token_of e = Some token" and other: "caller \<noteq> self_address e"
    and dist: "invoke_contract h (target_drip_list t) ''distribute_wave_splits'' [] (world e) = Some w"
    and known: "token_balance h token caller w \<noteq> None"
    and ret: "grace_execution h tid t caller l e = (Ok u, e')"
  shows "moved (token_balance h token) (self_address e) caller (due e t) w (world e')"
proof -
  from ret obtain slash secondary e1 e2 e3 where
    sl: "apply_slash h (designated_keeper t) e = (Ok (slash, secondary), e1)"
    and di: "execute_distribution h t caller True e1 = (Ok (), e2)"
    and pay: "if 0 < sint secondary then pay_from_contract h caller secondary e2 = (Ok (), e3) else e3 = e2"
    and e': "world e' = world e3"
    by (auto simp: grace_execution_Ok_iff)
  from apply_slash_exact [OF exact ok sl] obtain d where d: "keeper_at e (designated_keeper t) = Some d"
    and rng: "slash_in_range d e" and e1: "e1 = slashed_env (designated_keeper t) d e"
    and sec: "secondary = word_of_int (secondary_reward_of (sint (stake_amount d)))" by auto
  note v1 = slashed_env_views [OF ok d, folded e1]
  have sec': "sint secondary = secondary_reward_of (sint (stake_amount d))"
    unfolding sec using rng slash_intermediate_range(3) [of "sint (stake_amount d)"]
    by (intro sint_word_of_i128) (simp add: slash_in_range_def)
  have m: "moved (token_balance h token) (self_address e) caller (sint (micro_reward_per_run t)) w (world e2)"
    using distribution_pays [OF v1(1) sep _ _ _ known di] tok other dist by (simp add: v1)
  have v2: "storage_ok e2" "self_address e2 = self_address e" "native_token_of e2 = Some token"
    using execute_distribution_views [OF v1(1) _ di, of tid] t v1 tok views_of_instance(2) [of e2 e1]
    by metis+
  have known2: "token_balance h token caller (world e2) \<noteq> None"
    using m by (auto simp: moved_def)
  show ?thesis
  proof (cases "0 < sint secondary")
    case True
    with pay obtain w3 where w3: "paid h e2 caller secondary w3" "e3 = e2\<lparr>world := w3\<rparr>"
      by (auto simp: pay_from_contract_Ok_iff [OF v2(1)])
    have "moved (token_balance h token) (self_address e) caller (sint secondary) (world e2) w3"
      using paid_moves [OF sep v2(3) _ known2 w3(1)] other by (simp add: v2)
    from moved_trans [OF m this] show ?thesis
      using True w3 grace d sec' by (simp add: due_def e')
  next
    case False
    with pay m grace d sec' show ?thesis by (simp add: due_def e' max_def)
  qed
qed

lemma execution_pays:
  assumes exact: "region_of (next_allowed_execution t) (sequence e) = GracePeriod \<Longrightarrow>
       slash_exact h e (designated_keeper t)"
    and ok: "storage_ok e" and t: "task_at e tid = Some t"
    and sep: "sep41_token (token_balance h token) (token_transfer h token)"
    and tok: "native_token_of e = Some token" and other: "caller \<noteq> self_address e"
    and dist: "invoke_contract h (target_drip_list t) ''distribute_wave_splits'' [] (world e) = Some w"
    and known: "token_balance h token caller w \<noteq> None"
    and ret: "execute_drip_split h tid caller e = (Ok u, e')"
  shows "moved (token_balance h token) (self_address e) caller (due e t) w (world e')"
  using execute_drip_split_Ok [OF ok ret]
proof cases
  case (1 t')
  with t have "t' = t" by simp
  note run = 1(4,5) [unfolded this]
  show ?thesis
  proof (cases "region_of (next_allowed_execution t) (sequence e) = GracePeriod")
    case True
    from grace_pays [OF exact [OF True] ok t True sep tok other dist known run(1) [OF True]] show ?thesis .
  next
    case False
    let ?e = "if region_of (next_allowed_execution t) (sequence e) = PostGrace
              then e\<lparr>events := events e @ [missed_event tid (sequence e - next_allowed_execution t)]\<rparr>
              else e"
    have v: "storage_ok ?e" "native_token_of ?e = Some token" "self_address ?e = self_address e"
      "world ?e = world e"
      using ok tok by simp_all
    from distribution_pays [OF v(1) sep v(2) _ _ known run(2) [OF False]] False other dist show ?thesis
      unfolding v by (simp add: due_def)
  qed
qed

end
