(* ===== verification/Anchor_Sandbox.thy ===== *)
theory Anchor_Sandbox
  imports Anchor_Returns
begin

text \<open>
  A concrete host and a concrete deployment, on which the hypotheses of the contract's theorems
  are shown to hold.  The host keeps one token ledger, pads the hash input to 32 bytes and accepts
  every \<open>distribute_wave_splits\<close> call, as the mock Drip List of the integration tests does; the
  deployment follows the set-up of those tests.
\<close>

type_synonym token_ledger = "Address \<Rightarrow> i128"

definition ledger_transfer :: "Address \<Rightarrow> Address \<Rightarrow> i128 \<Rightarrow> token_ledger \<Rightarrow> token_ledger option" where
  "ledger_transfer a b n w =
     (if sint n < 0 \<or> sint (w a) < sint n \<or> \<not> i128_in_range (sint (w b) + sint n) then None
      else (let w' = w(a := w a - n) in Some (w'(b := w' b + n))))"

definition sandbox_host :: "cargo_profile \<Rightarrow> token_ledger Host" where
  "sandbox_host p =
     \<lparr>profile = p, sha256 = (\<lambda>bs. bs @ replicate 24 0),
      token_balance = (\<lambda>token a w. Some (w a)),
      token_transfer = (\<lambda>token. ledger_transfer),
      invoke_contract = (\<lambda>c f args w. if f = ''distribute_wave_splits'' then Some w else None)\<rparr>"

datatype ledger_action = Call call | Close u32

fun perform :: "'w Host \<Rightarrow> ledger_action \<Rightarrow> 'w Env \<Rightarrow> 'w Env" where
  "perform h (Call c) e = snd (host_call (anchor_contract h c) (e\<lparr>auths := (\<lambda>_. True)\<rparr>))"
| "perform h (Close l) e = (if sequence e < l then e\<lparr>sequence := l\<rparr> else e)"

fun performs :: "'w Host \<Rightarrow> ledger_action list \<Rightarrow> 'w Env \<Rightarrow> 'w Env" where
  "performs h [] e = e"
| "performs h (a # as) e = performs h as (perform h a e)"

lemma reachable_perform: "reachable h e \<Longrightarrow> reachable h (perform h a e)"
  by (cases a) (auto intro: reachable.step anchor_step.intros)

lemma reachable_performs: "reachable h e \<Longrightarrow> reachable h (performs h as e)"
  by (induction as arbitrary: e) (auto intro: reachable_perform)

definition sandbox_start :: "token_ledger Env" where
  "sandbox_start = deployed 100 ''ANCHOR'' ((\<lambda>_. 0)(''ANCHOR'' := 500000000))"

definition sandbox_setup :: "ledger_action list" where
  "sandbox_setup =
     [Call (Initialize ''ADMIN'' ''XLM'' 10000000),
      Call (RegisterKeeper ''ALICE'' 100000000), Call (RegisterKeeper ''BOB'' 50000000),
      Call (ProvisionTask ''DRIPS'' 200 5000000 ''ALICE'')]"

definition sandbox :: "cargo_profile \<Rightarrow> token_ledger Env" where
  "sandbox p = performs (sandbox_host p) sandbox_setup sandbox_start"

definition sandbox_task :: TaskId where
  "sandbox_task = to_be_bytes 0 @ to_be_bytes 100 @ replicate 24 0"

lemma reachable_sandbox: "reachable (sandbox_host p) (sandbox p)"
  unfolding sandbox_def sandbox_start_def by (intro reachable_performs reachable.deploy)

section \<open>The deployment, evaluated\<close>

definition ALICE :: Keeper where
  "ALICE = new_keeper ''ALICE'' 100000000"

definition BOB :: Keeper where
  "BOB = new_keeper ''BOB'' 50000000"

definition DRIPS :: ExecutionTask where
  "DRIPS = \<lparr>task_id = sandbox_task, target_drip_list = ''DRIPS'', execution_interval_ledgers = 200,
     next_allowed_execution = 300, micro_reward_per_run = 5000000, designated_keeper = ''ALICE''\<rparr>"

lemma host_call_returned: "m e = (Ok a, e') \<Longrightarrow> host_call m e = (Ok a, e')"
  by (simp add: host_call_def)

lemma reply_with_returned: "m e = (Ok a, e') \<Longrightarrow> reply_with f m e = (Ok (f a), e')"
  by (simp add: reply_with_Ok)

lemma execution_is_step:
  "execute_drip_split h tid caller e = (Ok (), e') \<Longrightarrow> anchor_step h e e'"
  using anchor_step.invoke [of h e "ExecuteDripSplit tid caller" "auths e"]
  by (simp add: host_call_returned reply_with_returned)

lemma storage_ok_deployed [simp]: "storage_ok (deployed l self w)"
  by (rule contract_inv_storage [OF contract_inv_deployed])

lemma deployed_views [simp]:
  "admin_of (deployed l self w) = None" "keeper_at (deployed l self w) a = None"
  "task_at (deployed l self w) i = None" "task_counter_of (deployed l self w) = 0"
  "treasury_of (deployed l self w) = 0" "native_token_of (deployed l self w) = None"
  "sequence (deployed l self w) = l" "self_address (deployed l self w) = self"
  "world (deployed l self w) = w"
  by (simp_all add: deployed_def storage_views keeper_at_def task_at_def)

lemmas call_simps = host_call_returned reply_with_returned initialize_eq register_keeper_eq
  provision_task_eq

lemma perform_initialize:
  "storage_ok e \<Longrightarrow> admin_of e = None \<Longrightarrow>
     perform h (Call (Initialize a token m)) e =
       put_instance MinKeeperStake (ScI128 m) (put_instance NativeToken (ScAddress token)
         (put_instance Admin (ScAddress a) (e\<lparr>auths := \<lambda>_. True\<rparr>)))"
  by (simp add: call_simps)

lemma perform_register:
  "storage_ok e \<Longrightarrow> keeper_at e a = None \<Longrightarrow>
     sint (unwrap_or MIN_KEEPER_STAKE (min_stake_of e)) \<le> sint st \<Longrightarrow>
     perform h (Call (RegisterKeeper a st)) e =
       (put_keeper (new_keeper a st) (e\<lparr>auths := \<lambda>_. True\<rparr>))
         \<lparr>events := events e @ [\<lparr>topics = [''kpr_reg''], data = [ScAddress a, ScI128 st]\<rparr>]\<rparr>"
  by (simp add: call_simps not_less [symmetric])

lemma perform_provision:
  "storage_ok e \<Longrightarrow> admin_of e = Some admin \<Longrightarrow> interval \<noteq> 0 \<Longrightarrow> 0 < sint reward \<Longrightarrow>
     keeper_at e d = Some k \<Longrightarrow> \<not> ineligible k \<Longrightarrow>
     uadd (profile h) (task_counter_of e) 1 = Some c \<Longrightarrow>
     uadd (profile h) (sequence e) interval = Some n \<Longrightarrow>
     perform h (Call (ProvisionTask target interval reward d)) e =
       (let t = provisioned h e target interval reward d n
        in (put_task t (put_instance TaskCounter (ScU32 c) (e\<lparr>auths := \<lambda>_. True\<rparr>)))
             \<lparr>events := events e @ [task_prov_event t]\<rparr>)"
  by (simp add: call_simps Let_def provisioned_def)

lemmas perform_simps = perform_initialize perform_register perform_provision storage_ok_put
  registry.get_put task_table.get_put new_keeper_def MIN_KEEPER_STAKE_def provisioned_def

declare perform.simps(1) [simp del]

lemma sandbox_host_simps [simp]:
  "profile (sandbox_host p) = p" "sha256 (sandbox_host p) = (\<lambda>bs. bs @ replicate 24 0)"
  "token_balance (sandbox_host p) = (\<lambda>token a w. Some (w a))"
  "token_transfer (sandbox_host p) = (\<lambda>token. ledger_transfer)"
  "invoke_contract (sandbox_host p) c f args w =
     (if f = ''distribute_wave_splits'' then Some w else None)"
  by (simp_all add: sandbox_host_def)

lemma sandbox_uadd: "uadd p (0 :: u32) 1 = Some 1" "uadd p (100 :: u32) 200 = Some 300"
  by (simp_all add: uadd_def)

lemma sandbox_views:
  "keeper_at (sandbox p) = [''ALICE'' \<mapsto> ALICE, ''BOB'' \<mapsto> BOB]"
  "task_at (sandbox p) = [sandbox_task \<mapsto> DRIPS]"
  "native_token_of (sandbox p) = Some ''XLM''" "admin_of (sandbox p) = Some ''ADMIN''"
  "min_stake_of (sandbox p) = Some 10000000" "treasury_of (sandbox p) = 0"
  "task_counter_of (sandbox p) = 1" "sequence (sandbox p) = 100"
  "self_address (sandbox p) = ''ANCHOR''" "auths (sandbox p) = (\<lambda>_. True)"
  "world (sandbox p) = (\<lambda>_. 0)(''ANCHOR'' := 500000000)"
  unfolding sandbox_def sandbox_setup_def
  by (auto simp: perform_simps sandbox_start_def Let_def DRIPS_def ALICE_def BOB_def sandbox_task_def
      sandbox_uadd fun_eq_iff)

lemma sandbox_storage_ok: "storage_ok (sandbox p)"
  by (rule contract_inv_storage [OF reachable_contract_inv [OF reachable_sandbox]])

section \<open>Runs of the sandbox task\<close>

definition sandbox_at :: "cargo_profile \<Rightarrow> u32 \<Rightarrow> token_ledger Env" where
  "sandbox_at p l = (sandbox p)\<lparr>sequence := l\<rparr>"

lemma reachable_sandbox_at: "100 < l \<Longrightarrow> reachable (sandbox_host p) (sandbox_at p l)"
  unfolding sandbox_at_def
  by (rule reachable.step [OF reachable_sandbox]) (simp add: anchor_step.ledger_close sandbox_views)

lemma sandbox_at_views [simp]:
  "keeper_at (sandbox_at p l) = [''ALICE'' \<mapsto> ALICE, ''BOB'' \<mapsto> BOB]"
  "task_at (sandbox_at p l) = [sandbox_task \<mapsto> DRIPS]"
  "native_token_of (sandbox_at p l) = Some ''XLM''" "admin_of (sandbox_at p l) = Some ''ADMIN''"
  "min_stake_of (sandbox_at p l) = Some 10000000" "treasury_of (sandbox_at p l) = 0"
  "task_counter_of (sandbox_at p l) = 1" "sequence (sandbox_at p l) = l"
  "self_address (sandbox_at p l) = ''ANCHOR''" "auths (sandbox_at p l) = (\<lambda>_. True)"
  "world (sandbox_at p l) = (\<lambda>_. 0)(''ANCHOR'' := 500000000)"
  "storage_ok (sandbox_at p l)"
  by (simp_all add: sandbox_at_def sandbox_views sandbox_storage_ok)

lemma sandbox_records [simp]:
  "next_allowed_execution DRIPS = 300" "execution_interval_ledgers DRIPS = 200"
  "micro_reward_per_run DRIPS = 5000000" "designated_keeper DRIPS = ''ALICE''"
  "target_drip_list DRIPS = ''DRIPS''" "task_id DRIPS = sandbox_task"
  "stake_amount ALICE = 100000000" "stake_amount BOB = 50000000"
  "ineligible ALICE = False" "ineligible BOB = False"
  "total_executions ALICE = 0" "total_executions BOB = 0"
  by (simp_all add: DRIPS_def ALICE_def BOB_def new_keeper_def)

lemma sandbox_region [simp]:
  "region_of 300 250 = PreWindow" "region_of 300 300 = DesignatedWindow"
  "region_of 300 310 = GracePeriod" "region_of 300 400 = PostGrace"
  by (simp_all add: region_of_def)

lemma sandbox_slash [simp]:
  "slash_of 100000000 = 5000000" "secondary_reward_of 100000000 = 2500000"
  "treasury_portion_of 100000000 = 2500000" "i128_in_range 500000000" "i128_in_range 2500000"
  by (simp_all add: secondary_reward_of_def treasury_portion_of_def slash_of_def sdiv_pos_eq
      i128_in_range_def)

lemma sandbox_paid:
  "paid (sandbox_host p) (sandbox_at p l) ''ALICE'' 5000000
     (\<lambda>a. if a = ''ANCHOR'' then 495000000 else if a = ''ALICE'' then 5000000 else 0)"
  "paid (sandbox_host p) (sandbox_at p l) ''BOB'' 5000000
     (\<lambda>a. if a = ''ANCHOR'' then 495000000 else if a = ''BOB'' then 5000000 else 0)"
  "paid (sandbox_host p) ((sandbox_at p l)\<lparr>world :=
     (\<lambda>a. if a = ''ANCHOR'' then 495000000 else if a = ''BOB'' then 5000000 else 0)\<rparr>) ''BOB'' 2500000
     (\<lambda>a. if a = ''ANCHOR'' then 492500000 else if a = ''BOB'' then 7500000 else 0)"
  by (auto simp: paid_def ledger_transfer_def Let_def i128_in_range_def fun_eq_iff)

lemma sandbox_world [simp]: "(sandbox_at p l)\<lparr>world := (\<lambda>_. 0)(''ANCHOR'' := 500000000)\<rparr> = sandbox_at p l"
  using sandbox_at_views(11) [of p l] by (metis Env.surjective Env.update_convs(7) Env.select_convs(7))

lemma sandbox_designated_run:
  "\<exists>e'. execute_drip_split (sandbox_host p) sandbox_task ''ALICE'' (sandbox_at p 300) = (Ok (), e')"
proof (rule execute_drip_split_returns [where t = DRIPS and k = ALICE])
  show "paid (sandbox_host p) ((sandbox_at p 300)\<lparr>world := (\<lambda>_. 0)(''ANCHOR'' := 500000000)\<rparr>) ''ALICE''
      (micro_reward_per_run DRIPS)
      (\<lambda>a. if a = ''ANCHOR'' then 495000000 else if a = ''ALICE'' then 5000000 else 0)"
    using sandbox_paid(1) by simp
qed (simp_all add: uadd_no_overflow)

lemma sandbox_grace_run:
  "\<exists>e'. execute_drip_split (sandbox_host p) sandbox_task ''BOB'' (sandbox_at p 310) = (Ok (), e')"
proof (rule execute_drip_split_returns [where t = DRIPS and k = BOB])
  let ?w = "\<lambda>a. if a = ''ANCHOR'' then 495000000 else if a = ''BOB'' then 5000000 else 0"
  show "paid (sandbox_host p) ((sandbox_at p 310)\<lparr>world := (\<lambda>_. 0)(''ANCHOR'' := 500000000)\<rparr>) ''BOB''
      (micro_reward_per_run DRIPS) ?w"
    using sandbox_paid(2) by simp
  show "slash_payable (sandbox_host p) (sandbox_at p 310) (designated_keeper DRIPS) ''BOB'' ?w"
    using sandbox_paid(3) [of p 310] by (auto simp: slash_payable_def slash_in_range_def)
qed (simp_all add: uadd_no_overflow)

lemma sandbox_sep41: "sep41_token (token_balance (sandbox_host p) t) (token_transfer (sandbox_host p) t)"
  unfolding sep41_token_def
proof (intro conjI allI impI)
  fix a b n w w' x y
  assume tr: "token_transfer (sandbox_host p) t a b n w = Some w'" and "a \<noteq> b"
    and bal: "token_balance (sandbox_host p) t a w = Some x" "token_balance (sandbox_host p) t b w = Some y"
  then have le: "0 \<le> sint n" "sint n \<le> sint x" and rng: "i128_in_range (sint y + sint n)"
    and w': "w' = w(a := x - n, b := y + n)"
    by (auto simp: ledger_transfer_def Let_def split: if_splits)
  have "i128_in_range (sint x - sint n)"
    using le i128_in_range_sint [of x] i128_in_range_sint [of n] by (simp add: i128_in_range_def)
  from sint_word_of_i128 [OF this] sint_word_of_i128 [OF rng]
  have "sint (x - n) = sint x - sint n" "sint (y + n) = sint y + sint n"
    by simp_all
  with le w' \<open>a \<noteq> b\<close>
  show "0 \<le> sint n" and "sint n \<le> sint x"
    and "\<exists>x' y'. token_balance (sandbox_host p) t a w' = Some x' \<and> sint x' = sint x - sint n \<and>
      token_balance (sandbox_host p) t b w' = Some y' \<and> sint y' = sint y + sint n"
    by simp_all
next
  fix a b c n w w'
  assume "token_transfer (sandbox_host p) t a b n w = Some w'" "c \<noteq> a" "c \<noteq> b"
  then show "token_balance (sandbox_host p) t c w' = token_balance (sandbox_host p) t c w"
    by (auto simp: ledger_transfer_def Let_def split: if_splits)
qed

lemma sandbox_collision_free: "collision_free (sandbox_host p)"
  by (simp add: collision_free_def inj_on_def)

end
