(* ===== verification/Anchor_Profiles.thy ===== *)
theory Anchor_Profiles
  imports Anchor_Sandbox
begin

text \<open>
  The two build profiles of the contract compared.  The sources leave overflow checks to the profile:
  a dev build panics where a release build wraps around.  The relation \<open>checked_by m n\<close> says that
  \<open>n\<close> does what \<open>m\<close> does wherever \<open>m\<close> raises no overflow panic; it is a congruence for the
  operations the contract is written with, so it carries over from the arithmetic to the entry
  points.  The predicate \<open>overflow_at\<close> lists the calls that overflow by inequalities over the
  stored records; the steps without one, \<open>exact_step\<close>, make the histories on which the two builds
  do the same, and the properties about integers hold along them in either build.
\<close>

section \<open>Agreement up to overflow panics\<close>

definition overflowed :: "('e, 'a) outcome \<Rightarrow> bool" where
  "overflowed r \<longleftrightarrow> r \<in> Panic ` {ADD_OVERFLOW, SUB_OVERFLOW, MUL_OVERFLOW}"

definition checked_by :: "('s, 'e, 'a) comp \<Rightarrow> ('s, 'e, 'a) comp \<Rightarrow> bool" where
  "checked_by m n \<longleftrightarrow> (\<forall>s. overflowed (fst (m s)) \<or> n s = m s)"

lemma overflowed_simps [simp]:
  "\<not> overflowed (Ok a)" "\<not> overflowed (Err x)"
  "overflowed (Panic msg) \<longleftrightarrow> msg \<in> {ADD_OVERFLOW, SUB_OVERFLOW, MUL_OVERFLOW}"
  by (auto simp: overflowed_def)

lemma checked_refl [simp, intro]: "checked_by m m"
  by (simp add: checked_by_def)

lemma checked_byD: "checked_by m n \<Longrightarrow> \<not> overflowed (fst (m s)) \<Longrightarrow> n s = m s"
  by (auto simp: checked_by_def)

lemma checked_bind:
  assumes "checked_by m n" and "\<And>a. checked_by (f a) (g a)"
  shows "checked_by (bind_c m f) (bind_c n g)"
  unfolding checked_by_def
proof
  fix s
  obtain r s' where m: "m s = (r, s')" by fastforce
  from assms(1) m have "overflowed r \<or> n s = (r, s')" by (metis checked_by_def fst_conv)
  then show "overflowed (fst (bind_c m f s)) \<or> bind_c n g s = bind_c m f s"
    using m assms(2) by (cases r) (auto simp: bind_c_def checked_by_def)
qed

lemma checked_if:
  "(b \<Longrightarrow> checked_by m n) \<Longrightarrow> (\<not> b \<Longrightarrow> checked_by m' n') \<Longrightarrow>
     checked_by (if b then m else m') (if b then n else n')"
  by simp

lemma checked_pair:
  "(\<And>a b. checked_by (f a b) (g a b)) \<Longrightarrow> checked_by (case x of (a, b) \<Rightarrow> f a b) (case x of (a, b) \<Rightarrow> g a b)"
  by (cases x) simp

lemma checked_arith [intro]:
  "checked_by (unwrap_c ADD_OVERFLOW (uadd Dev a b)) (unwrap_c ADD_OVERFLOW (uadd Release a b))"
  "checked_by (unwrap_c SUB_OVERFLOW (usub Dev a b)) (unwrap_c SUB_OVERFLOW (usub Release a b))"
  "checked_by (unwrap_c ADD_OVERFLOW (i128_add Dev x y)) (unwrap_c ADD_OVERFLOW (i128_add Release x y))"
  "checked_by (unwrap_c SUB_OVERFLOW (i128_sub Dev x y)) (unwrap_c SUB_OVERFLOW (i128_sub Release x y))"
  "checked_by (unwrap_c MUL_OVERFLOW (i128_mul Dev x y)) (unwrap_c MUL_OVERFLOW (i128_mul Release x y))"
  by (simp_all add: checked_by_def uadd_def usub_def i128_add_def i128_sub_def i128_mul_def
      i128_arith_def unwrap_c_def comp_simps)

lemmas checked_intros = checked_bind checked_if checked_pair checked_arith checked_refl

section \<open>The operations of the contract\<close>

abbreviation dev :: "'w Host \<Rightarrow> 'w Host" where "dev h \<equiv> h\<lparr>profile := Dev\<rparr>"
abbreviation release :: "'w Host \<Rightarrow> 'w Host" where "release h \<equiv> h\<lparr>profile := Release\<rparr>"

lemma host_profile:
  "profile (h\<lparr>profile := p\<rparr>) = p" "sha256 (h\<lparr>profile := p\<rparr>) = sha256 h"
  "invoke_contract (h\<lparr>profile := p\<rparr>) = invoke_contract h"
  by simp_all

lemma pay_profile: "pay_from_contract (h\<lparr>profile := p\<rparr>) r n = pay_from_contract h r n"
  by (simp add: pay_from_contract_def cong: if_cong)

lemma checked_distribution:
  "checked_by (execute_distribution (dev h) t caller sec) (execute_distribution (release h) t caller sec)"
  unfolding execute_distribution_def host_profile pay_profile
  by (intro checked_intros)

lemma checked_slash: "checked_by (apply_slash (dev h) a) (apply_slash (release h) a)"
  unfolding apply_slash_def Let_def host_profile
  by (intro checked_intros)

lemma checked_provision:
  "checked_by (provision_task (dev h) target interval reward d)
     (provision_task (release h) target interval reward d)"
  unfolding provision_task_def Let_def host_profile
  by (intro checked_intros)

lemma checked_execute:
  "checked_by (execute_drip_split (dev h) tid caller) (execute_drip_split (release h) tid caller)"
  unfolding execute_drip_split_def host_profile pay_profile
  by (intro checked_intros checked_distribution checked_slash)

lemma checked_entry_points: "checked_by (anchor_contract (dev h) c) (anchor_contract (release h) c)"
  by (cases c) (auto simp: reply_with_def intro!: checked_bind checked_provision checked_execute)

section \<open>Where an integer overflows\<close>

definition overflows :: "'w Host \<Rightarrow> call \<Rightarrow> 'w Env \<Rightarrow> bool" where
  "overflows h c e \<longleftrightarrow> overflowed (fst (anchor_contract (dev h) c e))"

text \<open>
  The calls whose arithmetic leaves its integers, read off the state.  A provisioning that passes every
  guard of \<open>provision_task\<close> overflows when the task counter or the first schedule does.  An execution
  that is admitted overflows when the slash of the grace period does not fit, or, past the slash, the
  Drip List call and the payment, when the next schedule or the caller's counter does not fit.
\<close>

definition run_overflows :: "'w Host \<Rightarrow> ExecutionTask \<Rightarrow> Address \<Rightarrow> 'w Env \<Rightarrow> bool" where
  "run_overflows h t caller e \<longleftrightarrow> (\<exists>w w'.
     invoke_contract h (target_drip_list t) ''distribute_wave_splits'' [] (world e) = Some w \<and>
     paid h (e\<lparr>world := w\<rparr>) caller (micro_reward_per_run t) w' \<and>
     (2 ^ 32 \<le> unat (sequence e) + unat (execution_interval_ledgers t) \<or>
      (\<exists>k. keeper_at e caller = Some k \<and> 2 ^ 64 \<le> unat (total_executions k) + 1)))"

fun overflow_at :: "'w Host \<Rightarrow> call \<Rightarrow> 'w Env \<Rightarrow> bool" where
  "overflow_at h (ProvisionTask target interval reward designated) e \<longleftrightarrow>
     (\<exists>admin k. admin_of e = Some admin \<and> auths e admin \<and> interval \<noteq> 0 \<and> 0 < sint reward \<and>
        keeper_at e designated = Some k \<and> \<not> ineligible k \<and>
        (2 ^ 32 \<le> unat (task_counter_of e) + 1 \<or> 2 ^ 32 \<le> unat (sequence e) + unat interval))"
| "overflow_at h (ExecuteDripSplit tid caller) e \<longleftrightarrow>
     (\<exists>t d. task_at e tid = Some t \<and> auths e caller \<and> keeper_at e (designated_keeper t) = Some d \<and>
        (let r = region_of (next_allowed_execution t) (sequence e)
         in admitted r (caller = designated_keeper t) (keeper_at e caller \<noteq> None) \<and>
            (if r = GracePeriod
             then sint (stake_amount d) \<noteq> 0 \<and> (\<not> slash_in_range d e \<or> run_overflows h t caller e)
             else run_overflows h t caller e)))"
| "overflow_at h _ e \<longleftrightarrow> False"

lemma overflowed_bind:
  "overflowed (fst (bind_c m f s)) \<longleftrightarrow> overflowed (fst (m s)) \<or>
     (\<exists>a s'. m s = (Ok a, s') \<and> overflowed (fst (f a s')))"
  by (cases "m s"; cases "fst (m s)") (auto simp: bind_c_def)

lemma overflowed_prim [simp]:
  "\<not> overflowed (fst (gets_c q s))" "\<not> overflowed (fst (modify_c u s))" "\<not> overflowed (fst (skip_c s))"
  "\<not> overflowed (fst (return_c a s))" "\<not> overflowed (fst (throw_c x s))"
  "overflowed (fst (unwrap_c msg x s)) \<longleftrightarrow> x = None \<and> msg \<in> {ADD_OVERFLOW, SUB_OVERFLOW, MUL_OVERFLOW}"
  "\<not> overflowed (fst (publish ts ds e))" "\<not> overflowed (fst (foreign_call g e))"
  "\<not> overflowed (fst (update_task t e))" "\<not> overflowed (fst (update_keeper k e))"
  "overflowed (fst (reply_with rf m s)) \<longleftrightarrow> overflowed (fst (m s))"
  by (cases x; auto simp: comp_simps foreign_call_def reply_with_def overflowed_bind split: option.splits)+

lemma overflowed_reads [simp]:
  "storage_ok e \<Longrightarrow> \<not> overflowed (fst (get_keeper a e))"
  "storage_ok e \<Longrightarrow> \<not> overflowed (fst (get_task i e))"
  by (simp_all add: get_keeper_eq get_task_eq split: option.splits)

lemma pay_never_overflows: "storage_ok e \<Longrightarrow> \<not> overflowed (fst (pay_from_contract h r n e))"
  using typed_instance_reads(2) [of e]
  by (auto simp: pay_from_contract_def overflowed_bind comp_simps)

lemma uadd_Dev_None: "uadd Dev a b = None \<longleftrightarrow> 2 ^ LENGTH('a) \<le> unat (a :: 'a::len word) + unat b"
  by (simp add: uadd_def)

lemma pay_from_contract_Ok_ex:
  "storage_ok e \<Longrightarrow> (\<exists>e'. pay_from_contract h r n e = (Ok (), e') \<and> Q e') \<longleftrightarrow>
     (\<exists>w. paid h e r n w \<and> Q (e\<lparr>world := w\<rparr>))"
  by (auto simp: pay_from_contract_Ok_iff)

lemma foreign_call_Ok_ex:
  "(\<exists>e'. foreign_call g e = (Ok (), e') \<and> Q e') \<longleftrightarrow> (\<exists>w. g (world e) = Some w \<and> Q (e\<lparr>world := w\<rparr>))"
  by (auto simp: foreign_call_Ok_iff)

lemma scheduled_overflows:
  assumes ok: "storage_ok e"
  shows "overflowed (fst (bind_c (unwrap_c ADD_OVERFLOW (uadd Dev l i)) (\<lambda>n.
       bind_c (update_task (t\<lparr>next_allowed_execution := n\<rparr>)) (\<lambda>_.
       bind_c (get_keeper caller) (\<lambda>keeper.
       bind_c (unwrap_c ADD_OVERFLOW (uadd Dev (total_executions keeper) 1)) (\<lambda>total.
       bind_c (update_keeper (keeper\<lparr>total_executions := total, last_execution_ledger := l\<rparr>)) (\<lambda>_.
       if \<not> sec then emit_task_executed x y z r else skip_c))))) e)) \<longleftrightarrow>
     2 ^ 32 \<le> unat l + unat i \<or>
     (\<exists>k. keeper_at e caller = Some k \<and> 2 ^ 64 \<le> unat (total_executions k) + 1)"
proof (cases "uadd Dev l i")
  case None
  moreover from None have "2 ^ 32 \<le> unat l + unat i" using uadd_Dev_None [of l i] by simp
  ultimately show ?thesis by (simp add: comp_simps)
next
  case (Some n)
  then have l: "\<not> 2 ^ 32 \<le> unat l + unat i"
    using uadd_Dev_None [of l i] by auto
  show ?thesis
  proof (cases "keeper_at e caller")
    case None
    with ok Some l show ?thesis by (simp add: comp_simps get_keeper_eq)
  next
    case k: (Some k)
    with ok Some l show ?thesis
      using uadd_Dev_None [of "total_executions k" 1]
      by (cases "uadd Dev (total_executions k) 1"; cases sec) (simp_all add: comp_simps get_keeper_eq emit_defs)
  qed
qed

lemma distribution_overflows:
  assumes ok: "storage_ok e"
  shows "overflowed (fst (execute_distribution (dev h) t caller sec e)) \<longleftrightarrow> run_overflows h t caller e"
  using ok
  by (simp add: execute_distribution_def overflowed_bind [of "foreign_call g" for g]
      overflowed_bind [of "pay_from_contract h r n" for h r n] comp_simps
      foreign_call_Ok_ex pay_from_contract_Ok_ex pay_never_overflows pay_profile scheduled_overflows
      run_overflows_def)

lemma slash_overflows:
  assumes ok: "storage_ok e" and k: "keeper_at e a = Some k" and nz: "sint (stake_amount k) \<noteq> 0"
    and out: "\<not> slash_in_range k e"
  shows "overflowed (fst (apply_slash (dev h) a e))"
proof (cases "i128_in_range (sint (stake_amount k) * 5)")
  case True
  then show ?thesis
    using out sint_word_of_i128 [OF slash_intermediate_range(4) [OF i128_in_range_sint True]]
    by (simp add: apply_slash_prefix [OF ok k nz True] slash_in_range_def i128_add_def i128_arith_def)
next
  case False
  then show ?thesis
    using nz by (simp add: apply_slash_def comp_simps get_keeper_eq [OF ok] k i128_mul_def i128_arith_def)
qed

lemma run_overflows_slashed:
  assumes "storage_ok e" and "keeper_at e a = Some d" and "caller \<noteq> a"
  shows "run_overflows h t caller (slashed_env a d e) = run_overflows h t caller e"
proof -
  note v = slashed_env_views [OF assms(1,2)]
  have "paid h (slashed_env a d e\<lparr>world := w\<rparr>) = paid h (e\<lparr>world := w\<rparr>)" for w
    by (rule paid_cong) (simp_all add: v)
  with v assms(3) show ?thesis by (simp add: run_overflows_def)
qed

lemma grace_overflows:
  assumes ok: "storage_ok e" and d: "keeper_at e (designated_keeper t) = Some d"
    and other: "caller \<noteq> designated_keeper t" and t: "task_at e tid = Some t"
  shows "overflowed (fst (grace_execution (dev h) tid t caller l e)) \<longleftrightarrow>
    sint (stake_amount d) \<noteq> 0 \<and> (\<not> slash_in_range d e \<or> run_overflows h t caller e)"
proof (cases "sint (stake_amount d) = 0")
  case True
  then show ?thesis by (simp add: grace_execution_def bind_c_def apply_slash_zero [OF ok d])
next
  case nz: False
  show ?thesis
  proof (cases "slash_in_range d e")
    case False
    with slash_overflows [OF ok d nz, of h] nz show ?thesis
      by (simp add: grace_execution_def overflowed_bind)
  next
    case True
    note v = slashed_env_views [OF ok d]
    let ?e = "slashed_env (designated_keeper t) d e"
    have ok2: "storage_ok e2" if "execute_distribution (dev h) t caller True ?e = (Ok u, e2)" for u e2
      using execute_distribution_views [OF v(1) _ that, of tid] t v(2) by metis
    have "overflowed (fst (bind_c (execute_distribution (dev h) t caller True) (\<lambda>_.
        bind_c (if 0 < sint secondary then pay_from_contract (dev h) caller secondary else skip_c) (\<lambda>_.
        emit_task_executed_by_secondary tid caller (designated_keeper t) l slash secondary r)) ?e)) \<longleftrightarrow>
        run_overflows h t caller ?e" for slash secondary r
      unfolding overflowed_bind distribution_overflows [OF v(1)]
      by (auto simp: emit_defs dest!: ok2 pay_never_overflows)
    then show ?thesis
      using apply_slash_eq [OF ok d nz True, of "dev h"] nz True run_overflows_slashed [OF ok d other]
      by (simp add: grace_execution_def bind_c_def [of "apply_slash (dev h) a" for a])
  qed
qed

lemma execute_overflows:
  assumes inv: "contract_inv e"
  shows "overflowed (fst (execute_drip_split (dev h) tid caller e)) \<longleftrightarrow>
    overflow_at h (ExecuteDripSplit tid caller) e"
proof -
  note ok = contract_inv_storage [OF inv]
  show ?thesis
  proof (cases "task_at e tid")
    case None
    with ok show ?thesis by (simp add: execute_drip_split_no_task)
  next
    case (Some t)
    from inv Some obtain d where d: "keeper_at e (designated_keeper t) = Some d"
      by (auto simp: contract_inv_def tasks_ok_def)
    show ?thesis
    proof (cases "auths e caller")
      case False
      with ok Some show ?thesis by (simp add: execute_drip_split_no_auth)
    next
      case True
      have "run_overflows h t caller (e\<lparr>events := x\<rparr>) = run_overflows h t caller e" for x
        using paid_cong [of "e\<lparr>events := x, world := w\<rparr>" "e\<lparr>world := w\<rparr>" h for w]
        by (simp add: run_overflows_def)
      with distribution_overflows [of "e\<lparr>events := x\<rparr>" h t caller False for x]
        distribution_overflows [OF ok, of h t caller False] ok Some True d
        grace_overflows [OF ok d _ Some, of caller h "sequence e"] show ?thesis
        unfolding execute_drip_split_eq [OF ok Some True]
        by (cases "region_of (next_allowed_execution t) (sequence e)") (auto simp: comp_simps emit_defs)
    qed
  qed
qed

lemma provision_overflows:
  assumes ok: "storage_ok e"
  shows "overflowed (fst (provision_task (dev h) target interval reward d e)) \<longleftrightarrow>
    overflow_at h (ProvisionTask target interval reward d) e"
  by (auto simp: provision_task_eq [OF ok] Let_def uadd_Dev_None uadd_Dev_Some not_le split: option.splits)

lemma overflows_iff:
  assumes inv: "contract_inv e"
  shows "overflows h c e \<longleftrightarrow> overflow_at h c e"
proof -
  note ok = contract_inv_storage [OF inv]
  show ?thesis
    using execute_overflows [OF inv, of h] provision_overflows [OF ok, of h]
    by (cases c) (simp_all add: overflows_def initialize_eq [OF ok] register_keeper_eq [OF ok] ok
        del: overflow_at.simps(1,2) split: option.split)
qed

section \<open>Histories without overflow\<close>

lemma builds_agree: "\<not> overflows h c e \<Longrightarrow> anchor_contract (h\<lparr>profile := p\<rparr>) c e = anchor_contract (h\<lparr>profile := q\<rparr>) c e"
  using checked_byD [OF checked_entry_points, of h c e] by (cases p; cases q) (simp_all add: overflows_def)

lemma overflow_at_profile [simp]: "overflow_at (h\<lparr>profile := p\<rparr>) c e = overflow_at h c e"
proof -
  have "paid (h\<lparr>profile := p\<rparr>) = paid h" by (simp add: paid_def fun_eq_iff)
  then have "run_overflows (h\<lparr>profile := p\<rparr>) = run_overflows h" by (simp add: run_overflows_def fun_eq_iff)
  then show ?thesis by (cases c) (simp_all cong: if_cong)
qed

text \<open>
  An exact step: a call that is checked by the \<open>dev\<close> build or whose arithmetic fits its integers, a
  ledger close or a change outside the contract.  For a \<open>dev\<close> build these are all steps.
\<close>

definition exact_call :: "'w Host \<Rightarrow> call \<Rightarrow> 'w Env \<Rightarrow> bool" where
  "exact_call h c e \<longleftrightarrow> profile h = Dev \<or> \<not> overflow_at h c e"

inductive exact_step :: "'w Host \<Rightarrow> 'w Env \<Rightarrow> 'w Env \<Rightarrow> bool" for h where
  invoke: "exact_call h c (e\<lparr>auths := A\<rparr>) \<Longrightarrow>
     exact_step h e (snd (host_call (anchor_contract h c) (e\<lparr>auths := A\<rparr>)))"
| ledger_close: "sequence e < l \<Longrightarrow> exact_step h e (e\<lparr>sequence := l\<rparr>)"
| outside: "exact_step h e (e\<lparr>world := w\<rparr>)"

definition exact_reachable :: "'w Host \<Rightarrow> 'w Env \<Rightarrow> bool" where
  "exact_reachable h e \<longleftrightarrow> (\<exists>l self w. (exact_step h)\<^sup>*\<^sup>* (deployed l self w) e)"

lemma dev_profile: "profile h = Dev \<Longrightarrow> dev h = h"
  by simp

lemma exact_call_dev:
  assumes "contract_inv e" and "exact_call h c e"
  shows "anchor_contract h c e = anchor_contract (dev h) c e"
proof (cases "profile h = Dev")
  case False
  with assms overflows_iff [OF assms(1), of h c] have "\<not> overflows h c e" by (simp add: exact_call_def)
  from builds_agree [OF this, of "profile h" Dev] show ?thesis by simp
qed (simp add: dev_profile)

lemma exact_is_step: "exact_step h e e' \<Longrightarrow> anchor_step h e e'"
  by (induction rule: exact_step.induct) (auto intro: anchor_step.intros)

lemma execution_is_exact_step:
  "exact_call h (ExecuteDripSplit tid caller) e \<Longrightarrow> execute_drip_split h tid caller e = (Ok (), e') \<Longrightarrow>
     exact_step h e e'"
  using exact_step.invoke [of h "ExecuteDripSplit tid caller" "auths e" e]
  by (simp add: host_call_returned reply_with_returned)

lemma exact_run: "(exact_step h)\<^sup>*\<^sup>* e e' \<Longrightarrow> (anchor_step h)\<^sup>*\<^sup>* e e'"
  by (rule mono_rtranclp [rule_format]) (rule exact_is_step)

lemma exact_step_dev:
  assumes "contract_inv e" and "exact_step h e e'"
  shows "anchor_step (dev h) e e'"
  using assms(2,1)
proof (induction rule: exact_step.induct)
  case (invoke c A e)
  then have "anchor_contract h c (e\<lparr>auths := A\<rparr>) = anchor_contract (dev h) c (e\<lparr>auths := A\<rparr>)"
    by (intro exact_call_dev) simp_all
  then have "host_call (anchor_contract h c) (e\<lparr>auths := A\<rparr>) = host_call (anchor_contract (dev h) c) (e\<lparr>auths := A\<rparr>)"
    by (simp add: host_call_def)
  then show ?case by (simp add: anchor_step.invoke)
qed (auto intro: anchor_step.intros)

lemma exact_run_dev: "(exact_step h)\<^sup>*\<^sup>* e e' \<Longrightarrow> contract_inv e \<Longrightarrow> contract_inv e' \<and> (anchor_step (dev h))\<^sup>*\<^sup>* e e'"
  by (induction rule: rtranclp_induct)
    (auto intro: rtranclp.rtrancl_into_rtrancl exact_step_dev step_keeps_inv exact_is_step)

lemma Dev_step_exact: "profile h = Dev \<Longrightarrow> anchor_step h e e' \<Longrightarrow> exact_step h e e'"
  by (erule anchor_stepE) (auto intro: exact_step.intros simp: exact_call_def)

lemma Dev_run_exact: "profile h = Dev \<Longrightarrow> (anchor_step h)\<^sup>*\<^sup>* e e' \<Longrightarrow> (exact_step h)\<^sup>*\<^sup>* e e'"
  by (erule mono_rtranclp [rule_format, rotated]) (rule Dev_step_exact)

lemma exact_release_any:
  "(exact_step (release h))\<^sup>*\<^sup>* e s \<Longrightarrow> contract_inv e \<Longrightarrow> (anchor_step (h\<lparr>profile := p\<rparr>))\<^sup>*\<^sup>* e s"
  using exact_run [of "release h" e s] exact_run_dev [of "release h" e s] by (cases p) simp_all

lemma rtranclp_step_reachable: "(anchor_step h)\<^sup>*\<^sup>* e e' \<Longrightarrow> reachable h e \<Longrightarrow> reachable h e'"
  by (induction rule: rtranclp_induct) (auto intro: reachable.step)

lemma exact_reachable_dev: "exact_reachable h e \<Longrightarrow> reachable (dev h) e"
  unfolding exact_reachable_def
  by (blast dest: exact_run_dev [OF _ contract_inv_deployed] intro: rtranclp_step_reachable reachable.deploy)

lemma exact_reachable_reachable: "exact_reachable h e \<Longrightarrow> reachable h e"
  unfolding exact_reachable_def by (blast dest: exact_run intro: rtranclp_step_reachable reachable.deploy)

lemma exact_reachable_run: "exact_reachable h e \<Longrightarrow> (exact_step h)\<^sup>*\<^sup>* e e' \<Longrightarrow> exact_reachable h e'"
  unfolding exact_reachable_def by (meson rtranclp_trans)

text \<open>Every history of a \<open>dev\<close> build is exact.\<close>

lemma exact_reachable_Dev:
  assumes "profile h = Dev"
  shows "exact_reachable h e \<longleftrightarrow> reachable h e"
proof
  assume "reachable h e"
  then show "exact_reachable h e"
  proof (induction rule: reachable.induct)
    case (deploy l self w)
    show ?case unfolding exact_reachable_def by blast
  next
    case (step e e')
    from step.IH r_into_rtranclp [of "exact_step h", OF Dev_step_exact [OF assms step.hyps(2)]]
    show ?case by (rule exact_reachable_run)
  qed
qed (rule exact_reachable_reachable)

section \<open>Property\<close>

text \<open>A release build raises no overflow panic, so an overflow always tells the two builds apart.\<close>

lemma release_never_overflows:
  assumes "contract_inv e"
  shows "\<not> overflowed (fst (anchor_contract (release h) c e))"
  using entry_point_panics [OF assms, of "release h" c]
  by (auto simp: panics_within_def known_panics_def overflowed_def)

lemma differs_iff_overflows:
  assumes "contract_inv e"
  shows "anchor_contract (release h) c e = anchor_contract (dev h) c e \<longleftrightarrow> \<not> overflow_at h c e"
  using release_never_overflows [OF assms, of h c] builds_agree [of h c e Release Dev]
    overflows_iff [OF assms, of h c]
  by (auto simp: overflows_def)

text \<open>
  C14: the dev and the release build of the contract, and exactly when they differ.  In every reachable
  state a call has the same outcome, events and effect in both builds unless one of its integers
  overflows: a provisioning that passes all its guards while the task counter or the first schedule
  exceeds a \<open>u32\<close>, or an admitted execution whose slash does not fit an \<open>i128\<close> (grace period, non-zero
  stake) or whose next schedule or execution counter does not fit once the Drip List call and the
  payment succeeded.  In each of those states the builds do differ.  Every history of the release build
  without such a call is a history of both builds and ends in a state reachable in both.
\<close>
theorem builds_agree_unless_overflow:
  assumes "reachable h e"
  shows "(anchor_contract (release h) c (e\<lparr>auths := A\<rparr>) = anchor_contract (dev h) c (e\<lparr>auths := A\<rparr>) \<longleftrightarrow>
            \<not> overflow_at h c (e\<lparr>auths := A\<rparr>)) \<and>
         (\<forall>p l self w s. (exact_step (release h))\<^sup>*\<^sup>* (deployed l self w) s \<longrightarrow>
            (anchor_step (h\<lparr>profile := p\<rparr>))\<^sup>*\<^sup>* (deployed l self w) s \<and> reachable (h\<lparr>profile := p\<rparr>) s)"
proof -
  from reachable_contract_inv [OF assms] have inv: "contract_inv (e\<lparr>auths := A\<rparr>)" by simp
  show ?thesis
    by (simp add: differs_iff_overflows [OF inv])
      (blast intro: exact_release_any contract_inv_deployed rtranclp_step_reachable reachable.deploy)
qed

lemma sandbox_builds [simp]: "release (sandbox_host p) = sandbox_host Release" "dev (sandbox_host p) = sandbox_host Dev"
  by (simp_all add: sandbox_host_def)

theorem builds_agree_unless_overflow_witness:
  "anchor_contract (sandbox_host Release) (ProvisionTask ''DRIPS'' 4294967200 7 ''BOB'') (sandbox_at Dev 300) \<noteq>
     anchor_contract (sandbox_host Dev) (ProvisionTask ''DRIPS'' 4294967200 7 ''BOB'') (sandbox_at Dev 300) \<and>
   anchor_contract (sandbox_host Release) (ExecuteDripSplit sandbox_task ''BOB'') (sandbox_at Dev 310) =
     anchor_contract (sandbox_host Dev) (ExecuteDripSplit sandbox_task ''BOB'') (sandbox_at Dev 310)"
proof -
  have "overflow_at (sandbox_host Dev) (ProvisionTask ''DRIPS'' 4294967200 7 ''BOB'') (sandbox_at Dev 300)"
    "\<not> overflow_at (sandbox_host Dev) (ExecuteDripSplit sandbox_task ''BOB'') (sandbox_at Dev 310)"
    by (simp_all add: run_overflows_def slash_in_range_def)
  moreover have "reachable (sandbox_host Dev) (sandbox_at Dev 300)" "reachable (sandbox_host Dev) (sandbox_at Dev 310)"
    by (rule reachable_sandbox_at, simp)+
  note this(1) [THEN builds_agree_unless_overflow, of _ "auths (sandbox_at Dev 300)"]
    this(2) [THEN builds_agree_unless_overflow, of _ "auths (sandbox_at Dev 310)"]
  ultimately show ?thesis
    by (simp del: anchor_contract.simps overflow_at.simps sandbox_at_views)
qed

section \<open>The sandbox\<close>

lemma exact_perform:
  assumes "\<And>c. a = Call c \<Longrightarrow> exact_call h c (e\<lparr>auths := \<lambda>_. True\<rparr>)"
  shows "(exact_step h)\<^sup>*\<^sup>* e (perform h a e)"
proof (cases a)
  case (Call c)
  with exact_step.invoke [OF assms, of c] show ?thesis by (simp add: perform.simps(1) r_into_rtranclp)
next
  case (Close l)
  then show ?thesis by (auto intro: exact_step.ledger_close)
qed

lemma exact_performs:
  assumes "\<And>c e. Call c \<in> set as \<Longrightarrow> \<not> overflow_at h c e"
  shows "(exact_step h)\<^sup>*\<^sup>* e (performs h as e)"
  using assms
proof (induction as arbitrary: e)
  case (Cons a as)
  then have "(exact_step h)\<^sup>*\<^sup>* e (perform h a e)"
    by (intro exact_perform) (simp add: exact_call_def)
  moreover have "(exact_step h)\<^sup>*\<^sup>* (perform h a e) (performs h as (perform h a e))"
    using Cons by simp
  ultimately show ?case unfolding performs.simps by (rule rtranclp_trans)
qed simp

text \<open>The sandbox deployment is reached without overflow in both builds.\<close>

lemma sandbox_exact: "exact_reachable (sandbox_host p) (sandbox p)"
proof -
  let ?h = "sandbox_host p"
  let ?e = "performs ?h (take 3 sandbox_setup) sandbox_start"
  have "\<not> overflow_at ?h (ProvisionTask ''DRIPS'' 200 5000000 ''ALICE'') (?e\<lparr>auths := \<lambda>_. True\<rparr>)"
    by (simp add: sandbox_setup_def perform_simps sandbox_start_def)
  then have "exact_call ?h (ProvisionTask ''DRIPS'' 200 5000000 ''ALICE'') (?e\<lparr>auths := \<lambda>_. True\<rparr>)"
    by (simp add: exact_call_def del: overflow_at.simps)
  then have "(exact_step ?h)\<^sup>*\<^sup>* ?e (perform ?h (Call (ProvisionTask ''DRIPS'' 200 5000000 ''ALICE'')) ?e)"
    by (intro exact_perform) auto
  moreover have "(exact_step ?h)\<^sup>*\<^sup>* sandbox_start ?e"
    by (rule exact_performs) (auto simp: sandbox_setup_def)
  moreover have "perform ?h (Call (ProvisionTask ''DRIPS'' 200 5000000 ''ALICE'')) ?e = sandbox p"
    by (simp add: sandbox_def sandbox_setup_def)
  ultimately have "(exact_step ?h)\<^sup>*\<^sup>* sandbox_start (sandbox p)"
    by (auto intro: rtranclp_trans)
  then show ?thesis
    unfolding exact_reachable_def sandbox_start_def by blast
qed

lemma sandbox_at_exact [simp]: "100 < l \<Longrightarrow> exact_reachable (sandbox_host p) (sandbox_at p l)"
  by (rule exact_reachable_run [OF sandbox_exact])
    (simp add: sandbox_at_def r_into_rtranclp exact_step.ledger_close sandbox_views)

end
