(* ===== verification/Anchor_Replay.thy ===== *)
theory Anchor_Replay
  imports Anchor_Invariants
begin

text \<open>
  The registry and the task table rebuilt from the published events alone.  Each event changes the
  replayed tables the way an indexer reading \<open>the-anchor/src/events.rs\<close> would; the invariant is that
  the replayed tables are the stored ones, in both build profiles.
\<close>

section \<open>Replaying the registry\<close>

definition change_entry :: "'k \<Rightarrow> ('v \<Rightarrow> 'v) \<Rightarrow> ('k \<rightharpoonup> 'v) \<Rightarrow> ('k \<rightharpoonup> 'v)" where
  "change_entry a f m = m(a := map_option f (m a))"

definition stake_set :: "i128 \<Rightarrow> Keeper \<Rightarrow> Keeper" where
  "stake_set st k = k\<lparr>stake_amount := st, ineligible := ineligible k \<or> sint st < sint MIN_KEEPER_STAKE\<rparr>"

definition executed_at :: "u32 \<Rightarrow> Keeper \<Rightarrow> Keeper" where
  "executed_at l k = k\<lparr>total_executions := total_executions k + 1, last_execution_ledger := l\<rparr>"

definition replay_keeper :: "(Address \<rightharpoonup> Keeper) \<Rightarrow> event \<Rightarrow> (Address \<rightharpoonup> Keeper)" where
  "replay_keeper m ev =
     (if topics ev = [''kpr_reg''] then
        (case data ev of [ScAddress a, ScI128 st] \<Rightarrow> m(a \<mapsto> new_keeper a st) | _ \<Rightarrow> m)
      else if topics ev = [''slashed''] then
        (case data ev of [ScAddress a, ScI128 amount, ScI128 st] \<Rightarrow> change_entry a (stake_set st) m | _ \<Rightarrow> m)
      else if topics ev = [''task_exec''] then
        (case data ev of _ # ScAddress a # ScU32 l # _ \<Rightarrow> change_entry a (executed_at l) m | _ \<Rightarrow> m)
      else if topics ev = [''task_sec''] then
        (case data ev of _ # ScAddress a # _ # ScU32 l # _ \<Rightarrow> change_entry a (executed_at l) m | _ \<Rightarrow> m)
      else m)"

definition replay_keepers :: "event list \<Rightarrow> (Address \<rightharpoonup> Keeper)" where
  "replay_keepers evs = foldl replay_keeper Map.empty evs"

section \<open>Replaying the task table\<close>

text \<open>
  A task's terms are in its \<open>task_prov\<close> event.  Its schedule is known once it has run: the ledger of
  the latest execution plus the interval; the ledger of its provisioning is not published.
\<close>

record task_terms =
  tt_target :: Address
  tt_interval :: u32
  tt_reward :: i128
  tt_designated :: Address
  tt_schedule :: "u32 option"

definition run_at :: "u32 \<Rightarrow> task_terms \<Rightarrow> task_terms" where
  "run_at l tt = tt\<lparr>tt_schedule := Some (l + tt_interval tt)\<rparr>"

definition replay_task :: "(TaskId \<rightharpoonup> task_terms) \<Rightarrow> event \<Rightarrow> (TaskId \<rightharpoonup> task_terms)" where
  "replay_task m ev =
     (if topics ev = [''task_prov''] then
        (case data ev of [ScTaskId i, ScAddress target, ScU32 n, ScI128 r, ScAddress d] \<Rightarrow>
           m(i \<mapsto> \<lparr>tt_target = target, tt_interval = n, tt_reward = r, tt_designated = d, tt_schedule = None\<rparr>)
         | _ \<Rightarrow> m)
      else if topics ev = [''task_exec''] then
        (case data ev of ScTaskId i # _ # ScU32 l # _ \<Rightarrow> change_entry i (run_at l) m | _ \<Rightarrow> m)
      else if topics ev = [''task_sec''] then
        (case data ev of ScTaskId i # _ # _ # ScU32 l # _ \<Rightarrow> change_entry i (run_at l) m | _ \<Rightarrow> m)
      else m)"

definition replay_tasks :: "event list \<Rightarrow> (TaskId \<rightharpoonup> task_terms)" where
  "replay_tasks evs = foldl replay_task Map.empty evs"

definition matches_terms :: "ExecutionTask \<Rightarrow> task_terms \<Rightarrow> bool" where
  "matches_terms t tt \<longleftrightarrow> target_drip_list t = tt_target tt \<and>
     execution_interval_ledgers t = tt_interval tt \<and> micro_reward_per_run t = tt_reward tt \<and>
     designated_keeper t = tt_designated tt \<and>
     (\<forall>n. tt_schedule tt = Some n \<longrightarrow> next_allowed_execution t = n)"

section \<open>The replayed tables are the stored ones\<close>

lemma replay_append [simp]:
  "replay_keepers (evs @ evs') = foldl replay_keeper (replay_keepers evs) evs'"
  "replay_tasks (evs @ evs') = foldl replay_task (replay_tasks evs) evs'"
  by (simp_all add: replay_keepers_def replay_tasks_def)

lemma replay_keeper_events [simp]:
  "replay_keeper m \<lparr>topics = [''kpr_reg''], data = [ScAddress a, ScI128 st]\<rparr> = m(a \<mapsto> new_keeper a st)"
  "replay_keeper m \<lparr>topics = [''slashed''], data = [ScAddress a, ScI128 amount, ScI128 st]\<rparr> =
     change_entry a (stake_set st) m"
  "replay_keeper m (task_exec_event t a l) = change_entry a (executed_at l) m"
  "replay_keeper m (task_sec_event tid t a l slash secondary) = change_entry a (executed_at l) m"
  "replay_keeper m (missed_event tid n) = m" "replay_keeper m (task_prov_event t) = m"
  by (simp_all add: replay_keeper_def task_exec_event_def task_sec_event_def missed_event_def
      task_prov_event_def)

lemma replay_task_events [simp]:
  "replay_task m \<lparr>topics = [''kpr_reg''], data = d\<rparr> = m" "replay_task m \<lparr>topics = [''slashed''], data = d\<rparr> = m"
  "replay_task m (task_exec_event t a l) = change_entry (task_id t) (run_at l) m"
  "replay_task m (task_sec_event tid t a l slash secondary) = change_entry tid (run_at l) m"
  "replay_task m (missed_event tid n) = m"
  "replay_task m (task_prov_event t) = m(task_id t \<mapsto>
     \<lparr>tt_target = target_drip_list t, tt_interval = execution_interval_ledgers t,
      tt_reward = micro_reward_per_run t, tt_designated = designated_keeper t, tt_schedule = None\<rparr>)"
  by (simp_all add: replay_task_def task_exec_event_def task_sec_event_def missed_event_def
      task_prov_event_def)

lemma uadd_value: "uadd p a b = Some c \<Longrightarrow> c = a + b"
  by (simp add: uadd_def split: if_splits)

lemma counted_executed: "counted h l k k' \<Longrightarrow> k' = executed_at l k"
  by (auto simp: counted_def executed_at_def dest: uadd_value)

lemma slash_only_stake: "slash_only h k k' \<Longrightarrow> k' = stake_set (stake_amount k') k"
  unfolding slash_only_def stake_set_def by (elim conjE) (simp only:)

definition replayed :: "'w Env \<Rightarrow> bool" where
  "replayed e \<longleftrightarrow> keeper_at e = replay_keepers (events e) \<and>
     rel_fun (=) (rel_option matches_terms) (task_at e) (replay_tasks (events e))"

lemma replayed_execute:
  assumes ok: "storage_ok e" and I: "replayed e" and ret: "execute_drip_split h tid caller e = (Ok u, e')"
  shows "replayed e'"
proof -
  from execute_drip_split_views [OF ok ret]
  obtain t n k k' m where t: "task_at e tid = Some t"
    and n: "uadd (profile h) (sequence e) (execution_interval_ledgers t) = Some n"
    and k: "keeper_at e caller = Some k" "counted h (sequence e) k k'"
    and eff: "if region_of (next_allowed_execution t) (sequence e) = GracePeriod
         then grace_effect h tid t caller e m e' else plain_effect tid t caller e m e'"
    and e': "keeper_at e' = m(caller \<mapsto> k')" "task_at e' = (task_at e)(tid \<mapsto> t\<lparr>next_allowed_execution := n\<rparr>)"
    by metis
  have tid: "task_id t = tid" using task_at_task_id [OF ok] t by blast
  have new: "k' = executed_at (sequence e) k" using counted_executed [OF k(2)] .
  from I have keepers: "keeper_at e = replay_keepers (events e)"
    and tasks: "rel_fun (=) (rel_option matches_terms) (task_at e) (replay_tasks (events e))"
    by (simp_all add: replayed_def)
  have "rel_option matches_terms (task_at e tid) (replay_tasks (events e) tid)"
    using tasks by (simp add: rel_fun_def)
  with t obtain tt where tt: "replay_tasks (events e) tid = Some tt" "matches_terms t tt"
    by (auto simp: option_rel_Some1)
  have "rel_fun (=) (rel_option matches_terms) (task_at e')
      (change_entry tid (run_at (sequence e)) (replay_tasks (events e)))"
    using tasks tt uadd_value [OF n]
    by (auto simp: e' rel_fun_def change_entry_def run_at_def matches_terms_def)
  moreover have "keeper_at e' = replay_keepers (events e') \<and>
      replay_tasks (events e') = change_entry tid (run_at (sequence e)) (replay_tasks (events e))"
  proof (cases "region_of (next_allowed_execution t) (sequence e) = GracePeriod")
    case True
    with eff obtain d d' slash secondary where d: "caller \<noteq> designated_keeper t"
      "keeper_at e (designated_keeper t) = Some d" "slash_only h d d'"
      and m: "m = (keeper_at e)(designated_keeper t \<mapsto> d')"
      and ev: "events e' = events e @
          [\<lparr>topics = [''slashed''],
            data = [ScAddress (designated_keeper t), ScI128 slash, ScI128 (stake_amount d')]\<rparr>,
           task_sec_event tid t caller (sequence e) slash secondary]"
      unfolding grace_effect_def by auto
    have "keeper_at e' = change_entry caller (executed_at (sequence e))
        (change_entry (designated_keeper t) (stake_set (stake_amount d')) (keeper_at e))"
      using k(1) d slash_only_stake [OF d(3)] by (simp add: e' m new change_entry_def)
    with ev keepers show ?thesis by simp
  next
    case False
    with eff k(1) keepers tid show ?thesis
      by (simp add: plain_effect_def e' new change_entry_def)
  qed
  ultimately show ?thesis by (simp add: replayed_def)
qed

lemma replayed_return:
  assumes inv: "contract_inv e" and I: "replayed e" and ret: "anchor_contract h c e = (Ok r, e')"
  shows "replayed e'"
  using contract_inv_storage [OF inv] ret
proof (cases rule: returned_call_cases)
  case (execute tid caller)
  with replayed_execute [OF contract_inv_storage [OF inv] I] show ?thesis by blast
qed (use I in \<open>auto simp: replayed_def registry.get_put task_table.get_put new_keeper_def fun_eq_iff
    rel_fun_def matches_terms_def provisioned_def\<close>)

interpretation replay: ledger_invariant h replayed for h :: "'w Host"
proof
  show "replayed (deployed l self w)" for l self w
    by (simp add: replayed_def deployed_def keeper_at_def task_at_def replay_keepers_def replay_tasks_def
        fun_eq_iff rel_fun_def)
  show "replayed e'" if "contract_inv e" "replayed e" "anchor_contract h c e = (Ok r, e')" for e e' c r
    using that by (rule replayed_return)
qed (simp_all add: replayed_def)

end
