(* ===== verification/Anchor_Errors.thy ===== *)
theory Anchor_Errors
  imports Anchor_Returns
begin

text \<open>
  Which errors each entry point of the contract can answer in a reachable state: the error tables of
  the documentation in \<open>lib.rs\<close> and \<open>execution.rs\<close>, with \<open>SlashOnZeroStake\<close> from \<open>slashing.rs\<close>.
\<close>

fun entry_errors :: "call \<Rightarrow> ContractError set" where
  "entry_errors (Initialize _ _ _) = {AlreadyInitialized}"
| "entry_errors (RegisterKeeper _ _) = {StakeBelowMinimum, KeeperAlreadyRegistered}"
| "entry_errors (GetKeeper _) = {KeeperNotFound}"
| "entry_errors (ProvisionTask _ _ _ _) =
     {UnauthorizedCaller, InvalidInterval, InvalidReward, KeeperNotFound, IneligibleKeeper}"
| "entry_errors (GetTask _) = {TaskNotFound}"
| "entry_errors (ExecuteDripSplit _ _) =
     {TaskNotFound, TooEarlyToExecute, UnauthorizedExecutor, GracePeriodActive,
      CallerNotSecondaryEligible, InsufficientRewardBalance, SlashOnZeroStake}"

definition errs :: "'e set \<Rightarrow> ('s, 'e, 'a) comp \<Rightarrow> 's \<Rightarrow> bool" where
  "errs E m s \<longleftrightarrow> (\<forall>x. fst (m s) = Err x \<longrightarrow> x \<in> E)"

lemma errs_bind:
  assumes "errs E m s" and "\<And>a s'. m s = (Ok a, s') \<Longrightarrow> errs E (f a) s'"
  shows "errs E (bind_c m f) s"
  using assms by (cases "m s"; cases "fst (m s)") (auto simp: errs_def bind_c_def)

lemma errs_if:
  "(b \<Longrightarrow> errs E m s) \<Longrightarrow> (\<not> b \<Longrightarrow> errs E n s) \<Longrightarrow> errs E (if b then m else n) s"
  by simp

lemma errs_prim [simp]:
  "errs E (return_c a) s" "errs E (panic_c msg) s" "errs E (gets_c q) s" "errs E (modify_c u) s"
  "errs E skip_c s" "errs E (unwrap_c msg x) s" "errs E (throw_c err) s \<longleftrightarrow> err \<in> E"
  by (cases x; simp add: errs_def comp_simps)+

lemma errs_host [simp]:
  "errs E (publish ts ds) e" "errs E (persistent_set k v) e" "errs E (update_task t) e"
  "errs E (update_keeper kp) e" "errs E (foreign_call g) e" "errs E (persistent_get conv k) e"
  "errs E (instance_get conv k) e"
  by (auto simp: errs_def comp_simps foreign_call_def storage_get_apply convert_entry_def
      split: option.splits)

lemma errs_get_keeper: "storage_ok e \<Longrightarrow> keeper_at e a \<noteq> None \<Longrightarrow> errs E (get_keeper a) e"
  by (auto simp: errs_def get_keeper_eq split: option.splits)

lemma pay_errs: "InsufficientRewardBalance \<in> E \<Longrightarrow> errs E (pay_from_contract h r n) e"
  unfolding pay_from_contract_def by (auto intro!: errs_bind errs_if)

lemma distribution_errs:
  assumes "storage_ok e" and "keeper_at e caller \<noteq> None" and "InsufficientRewardBalance \<in> E"
  shows "errs E (execute_distribution h t caller sec) e"
  unfolding execute_distribution_def using assms
  by (auto intro!: errs_bind errs_if pay_errs errs_get_keeper
      simp: foreign_call_Ok_iff pay_from_contract_Ok_iff comp_Ok_iff comp_simps emit_defs)

lemma slash_errs:
  assumes ok: "storage_ok e" and k: "keeper_at e a = Some k"
    and "sint (stake_amount k) = 0 \<Longrightarrow> SlashOnZeroStake \<in> E"
  shows "errs E (apply_slash h a) e"
  unfolding apply_slash_def Let_def using assms
  by (auto intro!: errs_bind errs_if errs_get_keeper simp: emit_defs get_keeper_eq)

lemma grace_errs:
  assumes ok: "storage_ok e" and t: "keeper_at e (designated_keeper t) = Some dk"
    and k: "keeper_at e caller \<noteq> None"
    and E: "InsufficientRewardBalance \<in> E" "sint (stake_amount dk) = 0 \<Longrightarrow> SlashOnZeroStake \<in> E"
  shows "errs E (grace_execution h tid t caller l) e"
  unfolding grace_execution_def
proof (rule errs_bind, rule slash_errs [OF ok t E(2)], assumption, clarify)
  fix slash secondary e1
  assume sl: "apply_slash h (designated_keeper t) e = (Ok (slash, secondary), e1)"
  from apply_slash_Ok_effect [OF ok sl] obtain d d' treasury where
    d: "keeper_at e (designated_keeper t) = Some d" and only: "slash_only h d d'"
    and e1: "e1 = (put_keeper d' (put_persistent TreasuryBalance (ScI128 treasury) e))
           \<lparr>events := events e @ [\<lparr>topics = [''slashed''],
              data = [ScAddress (designated_keeper t), ScI128 slash, ScI128 (stake_amount d')]\<rparr>]\<rparr>"
    by (metis fst_conv)
  note v1 = slash_shape_views [OF ok d only e1]
  from v1(2) k have "keeper_at e1 caller \<noteq> None" by simp
  from distribution_errs [OF v1(1) this E(1)]
  show "errs E
     (bind_c (execute_distribution h t caller True) (\<lambda>_.
      bind_c (if 0 < sint secondary then pay_from_contract h caller secondary else skip_c) (\<lambda>_.
      emit_task_executed_by_secondary tid caller (designated_keeper t) l slash secondary
        (micro_reward_per_run t)))) e1"
    by (intro errs_bind errs_if pay_errs E(1)) (simp_all add: emit_defs)
qed

text \<open>
  An admitted caller meets an error only when the contract cannot pay, or in the grace period when the
  designated keeper has no stake.
\<close>

lemma admitted_errors:
  assumes inv: "contract_inv e" and t: "task_at e tid = Some t" and auth: "auths e caller"
    and dk: "keeper_at e (designated_keeper t) = Some dk"
    and adm: "admitted (region_of (next_allowed_execution t) (sequence e))
           (caller = designated_keeper t) (keeper_at e caller \<noteq> None)"
    and err: "fst (execute_drip_split h tid caller e) = Err x"
  shows "x = InsufficientRewardBalance \<or> x = SlashOnZeroStake \<and> sint (stake_amount dk) = 0 \<and>
    region_of (next_allowed_execution t) (sequence e) = GracePeriod"
proof -
  note ok = contract_inv_storage [OF inv]
  define E where "E = insert InsufficientRewardBalance
    (if sint (stake_amount dk) = 0 then {SlashOnZeroStake} else {})"
  have plain: "fst (execute_distribution h t caller False (e\<lparr>events := x\<rparr>)) = Err y \<Longrightarrow> y = InsufficientRewardBalance"
    if "keeper_at e caller \<noteq> None" for x y
    using distribution_errs [of "e\<lparr>events := x\<rparr>" caller "{InsufficientRewardBalance}"] ok that
    by (simp add: errs_def)
  have grace: "fst (grace_execution h tid t caller (sequence e) e) = Err y \<Longrightarrow> y \<in> E"
    if "keeper_at e caller \<noteq> None" for y
    using grace_errs [OF ok dk that, of E] by (auto simp: errs_def E_def)
  show ?thesis
    using adm err plain [of "events e"] plain grace dk unfolding execute_drip_split_eq [OF ok t auth]
    by (cases "region_of (next_allowed_execution t) (sequence e)")
      (auto simp: comp_simps E_def split: if_splits)
qed

lemma execute_errs:
  assumes inv: "contract_inv e"
  shows "errs (entry_errors (ExecuteDripSplit tid caller)) (execute_drip_split h tid caller) e"
proof (cases "task_at e tid")
  case None
  with contract_inv_storage [OF inv] show ?thesis by (simp add: errs_def execute_drip_split_no_task)
next
  case (Some t)
  note ok = contract_inv_storage [OF inv]
  from inv Some obtain dk where dk: "keeper_at e (designated_keeper t) = Some dk"
    by (auto simp: contract_inv_def tasks_ok_def)
  show ?thesis
  proof (cases "auths e caller")
    case False
    with ok Some show ?thesis by (simp add: errs_def execute_drip_split_no_auth)
  next
    case True
    have "refusal r d \<in> entry_errors (ExecuteDripSplit tid caller)" for r d
      by (cases r) simp_all
    with admitted_errors [OF inv Some True dk, of h] refused_eq [OF ok Some True, of h] show ?thesis
      unfolding errs_def
      by (cases "admitted (region_of (next_allowed_execution t) (sequence e)) (caller = designated_keeper t)
        (keeper_at e caller \<noteq> None)") auto
  qed
qed

lemma reply_Err: "fst (reply_with f m e) = Err x \<longleftrightarrow> fst (m e) = Err x"
  by (cases "m e"; cases "fst (m e)") (auto simp: reply_with_def bind_c_def return_c_def)

lemma entry_point_errs:
  assumes inv: "contract_inv e"
  shows "errs (entry_errors c) (anchor_contract h c) e"
proof -
  note ok = contract_inv_storage [OF inv]
  show ?thesis
  proof (cases c)
    case (ExecuteDripSplit tid caller)
    with execute_errs [OF inv, of tid caller h] show ?thesis
      by (simp add: errs_def reply_Err del: entry_errors.simps)
  qed (auto simp: errs_def reply_Err initialize_eq [OF ok] register_keeper_eq [OF ok]
      get_keeper_eq [OF ok] provision_task_eq [OF ok] get_task_eq [OF ok] Let_def
      split: option.splits if_splits)
qed

end
