(* ===== verification/Anchor_Properties.thy ===== *)
theory Anchor_Properties
  imports Anchor_Profiles Anchor_Replay Anchor_Errors
begin

text \<open>
  The properties of the contract: arbitration, the effect and the liveness of an execution, slash
  arithmetic, payments, the invariants of every reachable state and what a history keeps.  Each is
  applied to the sandbox deployment, where its hypotheses hold.
\<close>

lemma sandbox_reachable [simp]:
  "reachable (sandbox_host p) (sandbox_at p 250)" "reachable (sandbox_host p) (sandbox_at p 300)"
  "reachable (sandbox_host p) (sandbox_at p 310)" "reachable (sandbox_host p) (sandbox_at p 400)"
  by (simp_all add: reachable_sandbox_at)

section \<open>Arbitration\<close>

text \<open>
  C1: the window arbitration of \<open>execute_drip_split\<close> is exact.  A caller who is not admitted in
  the region of the current ledger gets precisely the region's error and nothing changes; an
  admitted caller gets an error only when the contract cannot pay, or in the grace period when the
  designated keeper has no stake left.
\<close>
theorem arbitration_exact:
  assumes "reachable h e" and "task_at e tid = Some t" and "auths e caller"
  shows "let r = region_of (next_allowed_execution t) (sequence e);
             d = (caller = designated_keeper t)
         in if admitted r d (keeper_at e caller \<noteq> None)
            then \<forall>x. fst (execute_drip_split h tid caller e) = Err x \<longrightarrow>
                   x = InsufficientRewardBalance \<or> x = SlashOnZeroStake \<and> r = GracePeriod \<and>
                   (\<exists>k. keeper_at e (designated_keeper t) = Some k \<and> sint (stake_amount k) = 0)
            else execute_drip_split h tid caller e = (Err (refusal r d), e)"
proof -
  note inv = reachable_contract_inv [OF assms(1)]
  from inv assms(2) obtain k where k: "keeper_at e (designated_keeper t) = Some k"
    by (auto simp: contract_inv_def tasks_ok_def)
  from admitted_errors [OF inv assms(2,3) k, of h] refused_eq [OF reachable_storage [OF assms(1)] assms(2,3), of h] k
  show ?thesis by (auto simp: Let_def)
qed

theorem arbitration_exact_witness:
  "execute_drip_split (sandbox_host Dev) sandbox_task ''BOB'' (sandbox_at Dev 300) =
     (Err UnauthorizedExecutor, sandbox_at Dev 300) \<and>
   execute_drip_split (sandbox_host Dev) sandbox_task ''ALICE'' (sandbox_at Dev 310) =
     (Err GracePeriodActive, sandbox_at Dev 310) \<and>
   execute_drip_split (sandbox_host Dev) sandbox_task ''EVE'' (sandbox_at Dev 400) =
     (Err UnauthorizedExecutor, sandbox_at Dev 400)"
  using arbitration_exact [of "sandbox_host Dev" "sandbox_at Dev 300" sandbox_task DRIPS "''BOB''"]
    arbitration_exact [of "sandbox_host Dev" "sandbox_at Dev 310" sandbox_task DRIPS "''ALICE''"]
    arbitration_exact [of "sandbox_host Dev" "sandbox_at Dev 400" sandbox_task DRIPS "''EVE''"]
  by (simp add: Let_def)

section \<open>Execution\<close>

text \<open>
  C5: what a returned execution does, in every region and in both build profiles: the executed task is
  rescheduled one interval after the current ledger and no other task changes, the caller's
  counters move, no keeper but the caller and (in the grace period) the designated keeper changes,
  and the configuration stays.
\<close>
theorem execution_effect:
  assumes "reachable h e" and "execute_drip_split h tid caller e = (Ok (), e')"
  shows "\<exists>t k n tot. task_at e tid = Some t \<and> keeper_at e caller = Some k \<and>
     uadd (profile h) (sequence e) (execution_interval_ledgers t) = Some n \<and>
     uadd (profile h) (total_executions k) 1 = Some tot \<and>
     task_at e' = (task_at e)(tid \<mapsto> t\<lparr>next_allowed_execution := n\<rparr>) \<and>
     keeper_at e' caller = Some (k\<lparr>total_executions := tot, last_execution_ledger := sequence e\<rparr>) \<and>
     (\<forall>a. keeper_at e' a = keeper_at e a \<or> a = caller \<or>
        (a = designated_keeper t \<and> region_of (next_allowed_execution t) (sequence e) = GracePeriod)) \<and>
     instance_st e' = instance_st e \<and> sequence e' = sequence e"
  using reachable_storage [OF assms(1)] assms(2)
proof (rule execute_drip_split_views)
  fix t n k k' m
  assume "task_at e tid = Some t" "keeper_at e caller = Some k" "counted h (sequence e) k k'"
    "uadd (profile h) (sequence e) (execution_interval_ledgers t) = Some n"
    "task_at e' = (task_at e)(tid \<mapsto> t\<lparr>next_allowed_execution := n\<rparr>)" "keeper_at e' = m(caller \<mapsto> k')"
    "instance_st e' = instance_st e" "sequence e' = sequence e"
    "if region_of (next_allowed_execution t) (sequence e) = GracePeriod
     then grace_effect h tid t caller e m e' else plain_effect tid t caller e m e'"
  then show ?thesis
    by (auto simp: counted_def grace_effect_def plain_effect_def split: if_splits)
qed

theorem execution_effect_witness:
  "\<exists>e'. execute_drip_split (sandbox_host Dev) sandbox_task ''ALICE'' (sandbox_at Dev 300) = (Ok (), e') \<and>
     task_at e' sandbox_task = Some (DRIPS\<lparr>next_allowed_execution := 500\<rparr>)"
proof -
  obtain e' where run:
    "execute_drip_split (sandbox_host Dev) sandbox_task ''ALICE'' (sandbox_at Dev 300) = (Ok (), e')"
    using sandbox_designated_run by blast
  from execution_effect [OF _ run] have "task_at e' sandbox_task = Some (DRIPS\<lparr>next_allowed_execution := 500\<rparr>)"
    by (auto simp: uadd_def)
  with run show ?thesis by blast
qed

text \<open>
  C8: an admitted caller is served.  When the Drip List accepts the call, the contract's balance
  covers what it pays, no counter overflows and (in the grace period) the designated keeper's stake is
  not zero and its slash fits its integers, \<open>execute_drip_split\<close> returns.
\<close>
theorem execution_succeeds:
  assumes "reachable h e" and "task_at e tid = Some t" and "auths e caller"
    and "admitted (region_of (next_allowed_execution t) (sequence e))
           (caller = designated_keeper t) (keeper_at e caller \<noteq> None)"
    and "invoke_contract h (target_drip_list t) ''distribute_wave_splits'' [] (world e) = Some w"
    and "paid h (e\<lparr>world := w\<rparr>) caller (micro_reward_per_run t) w'"
    and "unat (sequence e) + unat (execution_interval_ledgers t) < 2 ^ 32"
    and "keeper_at e caller = Some k" and "unat (total_executions k) + 1 < 2 ^ 64"
    and "region_of (next_allowed_execution t) (sequence e) = GracePeriod \<Longrightarrow>
           slash_payable h e (designated_keeper t) caller w'"
  shows "\<exists>e'. execute_drip_split h tid caller e = (Ok (), e')"
  using assms(7,9)
  by (intro execute_drip_split_returns [OF reachable_storage [OF assms(1)] assms(2-6) _ assms(8) _ assms(10)])
    (auto simp: uadd_no_overflow)

theorem execution_succeeds_witness:
  "\<exists>e'. execute_drip_split (sandbox_host Release) sandbox_task ''ALICE'' (sandbox_at Release 300) = (Ok (), e')"
  by (rule execution_succeeds [where t = DRIPS and k = ALICE and w = "world (sandbox_at Release 300)"])
    (use sandbox_paid(1) in \<open>simp_all\<close>)

text \<open>
  C2: a grace-period execution slashes the designated keeper by 5 percent and conserves it: what
  leaves the stake is split between the secondary keeper (the floor of one half) and the treasury
  (the rest), the flag is raised below 10,000,000 and the two events announce these amounts.  It holds
  in both builds for a designated keeper whose recorded stake is not negative, on the condition
  \<open>slash_exact\<close>: a \<open>dev\<close> build, or a stake whose product with five and a treasury that fit an
  \<open>i128\<close>.  A release build wraps around beyond that, and \<open>register_keeper\<close> accepts such a stake.
\<close>
theorem grace_slash_conserves:
  assumes "reachable h e" and "task_at e tid = Some t"
    and "region_of (next_allowed_execution t) (sequence e) = GracePeriod"
    and "keeper_at e (designated_keeper t) = Some d" and "0 \<le> sint (stake_amount d)"
    and "slash_exact h e (designated_keeper t)"
    and "execute_drip_split h tid caller e = (Ok (), e')"
  shows "\<exists>d'. keeper_at e' (designated_keeper t) = Some d' \<and>
     (let s = sint (stake_amount d); slash = s * 5 div 100
      in sint (stake_amount d') = s - slash \<and>
         sint (treasury_of e') = sint (treasury_of e) + (slash - slash div 2) \<and>
         sint (stake_amount d') + slash div 2 + sint (treasury_of e') = s + sint (treasury_of e) \<and>
         0 < sint (stake_amount d') \<and>
         (ineligible d' \<longleftrightarrow> ineligible d \<or> s - slash < 10000000) \<and>
         events e' = events e @
           [slashed_event (designated_keeper t) d,
            task_sec_event tid t caller (sequence e) (word_of_int slash) (word_of_int (slash div 2))])"
proof -
  note ok = reachable_storage [OF assms(1)]
  let ?s = "sint (stake_amount d)"
  from execute_drip_split_Ok [OF ok assms(7)] assms(2,3) have other: "caller \<noteq> designated_keeper t"
    and run: "grace_execution h tid t caller (sequence e) e = (Ok (), e')" by auto
  from grace_execution_exact [OF assms(6) ok assms(2) other run] assms(4)
  have nz: "?s \<noteq> 0" and rng: "slash_in_range d e"
    and d': "keeper_at e' (designated_keeper t) = Some (slashed_keeper d)"
    and treasury: "sint (treasury_of e') = sint (treasury_of e) + treasury_portion_of ?s"
    and ev: "events e' = events e @ [slashed_event (designated_keeper t) d,
      task_sec_event tid t caller (sequence e) (word_of_int (slash_of ?s))
        (word_of_int (secondary_reward_of ?s))]" by auto
  from nz assms(5) have s: "0 < ?s" by simp
  have stake: "sint (stake_amount (slashed_keeper d)) = ?s - ?s * 5 div 100"
    using slashed_keeper_stake [of d] rng s by (simp add: slash_in_range_def slash_of_floor)
  have "ineligible (slashed_keeper d) \<longleftrightarrow> ineligible d \<or> ?s - ?s * 5 div 100 < 10000000"
    using s by (simp add: slashed_keeper_def Let_def slash_of_floor MIN_KEEPER_STAKE_def)
  then show ?thesis
    using d' ev treasury stake s slash_of_keeps_positive [OF s]
    by (intro exI [of _ "slashed_keeper d"])
      (simp add: Let_def slash_of_floor secondary_reward_of_floor treasury_portion_of_def)
qed

theorem grace_slash_conserves_witness:
  "\<exists>e'. execute_drip_split (sandbox_host Release) sandbox_task ''BOB'' (sandbox_at Release 310) = (Ok (), e') \<and>
     map_option (\<lambda>k. sint (stake_amount k)) (keeper_at e' ''ALICE'') = Some 95000000 \<and>
     sint (treasury_of e') = 2500000"
proof -
  obtain e' where run:
    "execute_drip_split (sandbox_host Release) sandbox_task ''BOB'' (sandbox_at Release 310) = (Ok (), e')"
    using sandbox_grace_run by blast
  have "slash_exact (sandbox_host Release) (sandbox_at Release 310) ''ALICE''"
    by (simp add: slash_exact_def slash_in_range_def)
  with grace_slash_conserves [OF _ _ _ _ _ _ run, of DRIPS ALICE] run show ?thesis
    by (auto simp: Let_def)
qed

text \<open>
  C9: after the Drip List call of a returned execution, the executor is paid exactly the reward, plus
  one half of the slash in the grace period, out of the contract's own balance, and from then on no
  other holder's balance changes.  Balances are compared between the return of that call (the world
  \<open>w\<close>; what the Drip List itself moves is not bounded here) and the end of the execution, for a SEP-41
  token, a caller other than the contract and with a balance after the call.  Both builds; a
  grace-period execution needs \<open>slash_exact\<close>, a \<open>dev\<close> build or a slash that fits an \<open>i128\<close>.
\<close>
theorem execution_payments:
  assumes "reachable h e" and "task_at e tid = Some t"
    and "region_of (next_allowed_execution t) (sequence e) = GracePeriod \<Longrightarrow>
           slash_exact h e (designated_keeper t)"
    and "sep41_token (token_balance h token) (token_transfer h token)"
    and "native_token_of e = Some token" and "caller \<noteq> self_address e"
    and "invoke_contract h (target_drip_list t) ''distribute_wave_splits'' [] (world e) = Some w"
    and "token_balance h token caller w \<noteq> None"
    and "execute_drip_split h tid caller e = (Ok (), e')"
  shows "moved (token_balance h token) (self_address e) caller (due e t) w (world e')"
  by (rule execution_pays [OF assms(3) reachable_storage [OF assms(1)] assms(2,4-9)])

theorem execution_payments_witness:
  "\<exists>e'. execute_drip_split (sandbox_host Release) sandbox_task ''BOB'' (sandbox_at Release 310) = (Ok (), e') \<and>
     sint (world e' ''BOB'') = 7500000 \<and> sint (world e' ''ANCHOR'') = 492500000"
proof -
  obtain e' where run:
    "execute_drip_split (sandbox_host Release) sandbox_task ''BOB'' (sandbox_at Release 310) = (Ok (), e')"
    using sandbox_grace_run by blast
  have "slash_exact (sandbox_host Release) (sandbox_at Release 310) ''ALICE''"
    by (simp add: slash_exact_def slash_in_range_def)
  with execution_payments [OF _ _ _ sandbox_sep41 _ _ _ _ run, of DRIPS "''XLM''"] run show ?thesis
    by (auto simp: moved_def due_def)
qed

section \<open>Reachable states\<close>

text \<open>
  C10: in every reachable state each storage entry sits in its tier with its type and its own key,
  every task has a positive interval, a positive reward and a registered designated keeper, the
  configuration is either absent or complete, and every answer of an entry point has the declared
  type, a record read back carrying the key it was asked for.
\<close>
theorem reachable_well_formed:
  assumes "reachable h e"
  shows "(\<forall>k v. persistent_st e k = Some v \<longrightarrow> persistent_entry_ok k v) \<and>
    (\<forall>k v. instance_st e k = Some v \<longrightarrow> instance_entry_ok k v) \<and>
    (\<forall>i t. task_at e i = Some t \<longrightarrow> task_id t = i \<and> execution_interval_ledgers t \<noteq> 0 \<and>
       0 < sint (micro_reward_per_run t) \<and> keeper_at e (designated_keeper t) \<noteq> None \<and>
       admin_of e \<noteq> None) \<and>
    (native_token_of e = None \<longleftrightarrow> admin_of e = None) \<and> (min_stake_of e = None \<longleftrightarrow> admin_of e = None) \<and>
    (\<forall>A c r e'. anchor_contract h c (e\<lparr>auths := A\<rparr>) = (Ok r, e') \<longrightarrow> reply_ok c r)"
proof -
  note inv = reachable_contract_inv [OF assms]
  have "storage_ok (e\<lparr>auths := A\<rparr>)" for A using contract_inv_storage [OF inv] by simp
  from reply_typed [OF this] show ?thesis
    using inv task_at_task_id [OF contract_inv_storage [OF inv]]
    by (auto simp: contract_inv_def storage_ok_def tasks_ok_def config_ok_def)
qed

theorem reachable_well_formed_witness: "keeper_at (sandbox_at Dev 300) ''ALICE'' \<noteq> None"
  using reachable_well_formed [of "sandbox_host Dev" "sandbox_at Dev 300"] by auto

text \<open>
  C12: every call of a reachable contract ends in a documented way.  It answers a value of the declared
  type, or one of the errors documented for the entry point, or it panics for a missing authorisation,
  a trapping callee or, in the \<open>dev\<close> profile, an arithmetic overflow.  In particular the
  \<open>expect("native token not initialised")\<close> never fires, no stored value has the wrong type, an execution
  never answers \<open>KeeperNotFound\<close>, and the error codes \<open>InvalidDripList\<close>, \<open>DripListInvocationFailed\<close>
  and \<open>GracePeriodExpired\<close> are never used.
\<close>
theorem known_outcomes_only:
  assumes "reachable h e"
  shows "case fst (anchor_contract h c e) of
      Ok r \<Rightarrow> reply_ok c r
    | Err x \<Rightarrow> x \<in> entry_errors c
    | Panic msg \<Rightarrow> msg \<in> {''Error(Auth, InvalidAction)'', ''Error(Context, InvalidAction)''} \<or>
        (profile h = Dev \<and> msg \<in> {ADD_OVERFLOW, SUB_OVERFLOW, MUL_OVERFLOW})"
proof (cases "fst (anchor_contract h c e)")
  case (Ok r)
  then obtain e' where "anchor_contract h c e = (Ok r, e')" by (metis prod.collapse)
  from reply_typed [OF reachable_storage [OF assms] this] Ok show ?thesis by simp
next
  case (Err x)
  with entry_point_errs [OF reachable_contract_inv [OF assms], of c h] show ?thesis
    by (simp add: errs_def)
next
  case (Panic msg)
  with entry_point_panics [OF reachable_contract_inv [OF assms], of h c] show ?thesis
    by (auto simp: panics_within_def known_panics_def split: if_splits)
qed

theorem known_outcomes_only_witness:
  "\<exists>x. fst (anchor_contract (sandbox_host Dev) (ExecuteDripSplit sandbox_task ''BOB'') (sandbox_at Dev 250)) = Err x \<and>
     x \<in> entry_errors (ExecuteDripSplit sandbox_task ''BOB'')"
proof -
  let ?c = "ExecuteDripSplit sandbox_task ''BOB''"
  have "fst (execute_drip_split (sandbox_host Dev) sandbox_task ''BOB'' (sandbox_at Dev 250)) = Err TooEarlyToExecute"
    using execute_drip_split_eq [of "sandbox_at Dev 250" sandbox_task DRIPS "''BOB''" "sandbox_host Dev"] by simp
  then have run: "fst (anchor_contract (sandbox_host Dev) ?c (sandbox_at Dev 250)) = Err TooEarlyToExecute"
    by (simp add: reply_Err)
  from known_outcomes_only [of "sandbox_host Dev" "sandbox_at Dev 250" ?c]
  have "TooEarlyToExecute \<in> entry_errors ?c" unfolding run by simp
  with run show ?thesis by blast
qed

text \<open>
  C27: when the registration minimum is positive, no stake is zero or negative, so \<open>SlashOnZeroStake\<close>
  is never returned.  This is for states of an exact history: any history of a \<open>dev\<close> build, or a
  release history in which no call overflows an integer (\<open>overflow_at\<close>).  A release slash that wraps
  around can leave a stake that is not positive.
\<close>
theorem slash_never_on_zero_stake:
  assumes "exact_reachable h e"
    and "0 < sint (unwrap_or MIN_KEEPER_STAKE (min_stake_of e))"
  shows "(\<forall>a k. keeper_at e a = Some k \<longrightarrow> 0 < sint (stake_amount k)) \<and>
    fst (apply_slash h a e) \<noteq> Err SlashOnZeroStake"
proof -
  have pos: "0 < sint (stake_amount k)" if "keeper_at e a = Some k" for a k
    using stakes.everywhere [OF exact_reachable_dev [OF assms(1)]] assms(2) that
    by (simp add: stakes_positive_def)
  have "fst (apply_slash h a e) \<noteq> Err SlashOnZeroStake"
  proof (cases "keeper_at e a")
    case None
    then show ?thesis by (simp add: apply_slash_unknown reachable_storage [OF exact_reachable_reachable [OF assms(1)]])
  next
    case (Some k)
    with pos [OF Some] show ?thesis
      using slash_error_zero [OF reachable_storage [OF exact_reachable_reachable [OF assms(1)]] Some] by auto
  qed
  with pos show ?thesis by blast
qed

theorem slash_never_on_zero_stake_witness:
  "fst (apply_slash (sandbox_host Release) ''ALICE'' (sandbox_at Release 300)) \<noteq> Err SlashOnZeroStake"
  using slash_never_on_zero_stake [of "sandbox_host Release" "sandbox_at Release 300" "''ALICE''"] by simp

text \<open>
  C28: task identifiers are fresh.  With overflow checks and a hash that is collision free on the
  8-byte inputs the contract builds, a new task never takes the identifier of a stored one.
\<close>
theorem provisioned_id_fresh:
  assumes "profile h = Dev" and "collision_free h" and "reachable h e"
    and "provision_task h target interval reward designated e = (Ok i, e')"
  shows "task_at e i = None \<and> task_at e' = (task_at e)(i \<mapsto>
    \<lparr>task_id = i, target_drip_list = target, execution_interval_ledgers = interval,
     next_allowed_execution = sequence e + interval, micro_reward_per_run = reward,
     designated_keeper = designated\<rparr>)"
proof -
  note ok = reachable_storage [OF assms(3)]
  have "task_at e (sha256 h (to_be_bytes (task_counter_of e) @ to_be_bytes (sequence e))) = None"
    by (rule fresh_task_id [OF assms(2,1) task_ids.everywhere [OF assms(3)]])
  then show ?thesis
    using assms(1,4)
    by (auto simp: provision_task_eq [OF ok] provisioned_def task_table.get_put Let_def uadd_Dev_Some
        fun_eq_iff split: option.splits if_splits)
qed

theorem provisioned_id_fresh_witness:
  "\<exists>i e'. provision_task (sandbox_host Dev) ''DRIPS'' 60 7 ''BOB'' (sandbox_at Dev 300) = (Ok i, e') \<and>
     task_at (sandbox_at Dev 300) i = None"
proof -
  obtain i e' where run:
    "provision_task (sandbox_host Dev) ''DRIPS'' 60 7 ''BOB'' (sandbox_at Dev 300) = (Ok i, e')"
    by (simp add: provision_task_eq uadd_def Let_def)
  from provisioned_id_fresh [OF _ sandbox_collision_free _ run] run show ?thesis by auto
qed

text \<open>
  C11: the event log is the books.  In every reachable state, in both build profiles, the registry is
  exactly what replaying the published events gives (registration, stake after each slash, counters,
  ineligibility), and every stored task has the terms it was announced with and, once it has run, the
  schedule its last execution implies.  With overflow checks the treasury equals what the published
  grace-period executions retained and every counter the number of executions published.
\<close>
theorem event_log_is_the_books:
  assumes "reachable h e"
  shows "keeper_at e = replay_keepers (events e) \<and>
    (\<forall>i. rel_option matches_terms (task_at e i) (replay_tasks (events e) i)) \<and>
    (profile h = Dev \<longrightarrow>
       sint (treasury_of e) = sum_list (map retained (events e)) \<and>
       (\<forall>a. executions_by a (events e) =
          (case keeper_at e a of None \<Rightarrow> 0 | Some k \<Rightarrow> unat (total_executions k))))"
  using replay.everywhere [OF assms] books.everywhere [OF assms]
  by (simp add: replayed_def books_ok_def rel_fun_def)

theorem event_log_is_the_books_witness:
  "replay_keepers (events (sandbox_at Release 300)) = [''ALICE'' \<mapsto> ALICE, ''BOB'' \<mapsto> BOB] \<and>
   executions_by ''ALICE'' (events (sandbox_at Dev 300)) = 0"
proof
  show "replay_keepers (events (sandbox_at Release 300)) = [''ALICE'' \<mapsto> ALICE, ''BOB'' \<mapsto> BOB]"
    using event_log_is_the_books [of "sandbox_host Release" "sandbox_at Release 300"] by simp
  show "executions_by ''ALICE'' (events (sandbox_at Dev 300)) = 0"
  proof -
    have "reachable (sandbox_host Dev) (sandbox_at Dev 300)" by (rule reachable_sandbox_at) simp
    from event_log_is_the_books [OF this, THEN conjunct2, THEN conjunct2] show ?thesis by simp
  qed
qed

section \<open>Histories\<close>

text \<open>
  C6: a task runs at most once per interval.  After an execution at some ledger, every attempt to
  execute the same task before one interval has passed is refused with \<open>TooEarlyToExecute\<close>,
  whoever calls and whatever calls happened in between.
\<close>
theorem once_per_interval:
  assumes "profile h = Dev" and "collision_free h" and "reachable h e" and "task_at e tid = Some t"
    and "execute_drip_split h tid caller e = (Ok (), e')" and "(anchor_step h)\<^sup>*\<^sup>* e' e''"
    and "unat (sequence e'') < unat (sequence e) + unat (execution_interval_ledgers t)"
    and "auths e'' caller'"
  shows "execute_drip_split h tid caller' e'' = (Err TooEarlyToExecute, e'')"
proof -
  obtain n where n: "uadd (profile h) (sequence e) (execution_interval_ledgers t) = Some n"
    and t': "task_at e' tid = Some (t\<lparr>next_allowed_execution := n\<rparr>)"
    using reachable_storage [OF assms(3)] assms(5)
    by (rule execute_drip_split_views) (use assms(4) that in auto)
  from n assms(1) have un: "unat n = unat (sequence e) + unat (execution_interval_ledgers t)"
    by (auto simp: uadd_Dev_Some uadd_Some_unat)
  have "anchor_step h e e'" by (rule execution_is_step [OF assms(5)])
  then have r': "reachable h e'" by (rule reachable.step [OF assms(3)])
  from schedule_history.along [OF assms(6) r'] have r'': "reachable h e''" and "schedule_kept h e' e''"
    by simp_all
  from this(2) [unfolded schedule_kept_def, rule_format, OF assms(1,2) t']
  obtain m where m: "task_at e'' tid = Some (t\<lparr>next_allowed_execution := m\<rparr>)" "unat n \<le> unat m"
    by auto
  with un assms(7) have "region_of m (sequence e'') = PreWindow" by (simp add: region_of_def)
  with m execute_drip_split_eq [OF reachable_storage [OF r''] m(1) assms(8)] show ?thesis by simp
qed

theorem once_per_interval_witness:
  "\<exists>e'. execute_drip_split (sandbox_host Dev) sandbox_task ''ALICE'' (sandbox_at Dev 300) = (Ok (), e') \<and>
     (let e'' = e'\<lparr>auths := \<lambda>_. True\<rparr>
      in execute_drip_split (sandbox_host Dev) sandbox_task ''ALICE'' e'' = (Err TooEarlyToExecute, e''))"
proof -
  obtain e' where run:
    "execute_drip_split (sandbox_host Dev) sandbox_task ''ALICE'' (sandbox_at Dev 300) = (Ok (), e')"
    using sandbox_designated_run by blast
  have "sequence e' = 300"
    using execute_drip_split_views [OF _ run] by (metis sandbox_at_views(8,12))
  moreover have "anchor_step h e (e\<lparr>auths := \<lambda>_. True\<rparr>)" if "storage_ok e" for h e
    using anchor_step.invoke [of h e "GetTask sandbox_task" "\<lambda>_. True"] that
    by (simp add: host_call_def reply_with_def get_task_eq bind_c_def return_c_def split: option.splits)
  moreover have "storage_ok e'"
    using execute_drip_split_views [OF _ run] by (metis sandbox_at_views(12))
  ultimately show ?thesis
    using once_per_interval [OF _ sandbox_collision_free _ _ run r_into_rtranclp, of DRIPS
        "e'\<lparr>auths := \<lambda>_. True\<rparr>" "''ALICE''"] run by (auto simp: Let_def)
qed

text \<open>
  C29: the life of a registered keeper, over histories of any length.  In either build it is never
  removed, keeps its address and keeps a raised ineligibility flag.  Along an exact history (any history
  of a \<open>dev\<close> build, or a release history without an integer overflow) its execution count never falls,
  and a stake that is not negative stays so and never grows.  A negative stake, which a negative
  configured minimum lets in, does grow when it is slashed.
\<close>
theorem keeper_lifecycle:
  assumes "reachable h e" and "(anchor_step h)\<^sup>*\<^sup>* e e'" and "keeper_at e a = Some k"
  shows "\<exists>k'. keeper_at e' a = Some k' \<and> address k' = a \<and> (ineligible k \<longrightarrow> ineligible k') \<and>
    ((exact_step h)\<^sup>*\<^sup>* e e' \<longrightarrow> 0 \<le> sint (stake_amount k) \<longrightarrow>
       0 \<le> sint (stake_amount k') \<and> sint (stake_amount k') \<le> sint (stake_amount k)) \<and>
    ((exact_step h)\<^sup>*\<^sup>* e e' \<longrightarrow> unat (total_executions k) \<le> unat (total_executions k'))"
proof -
  note inv = reachable_contract_inv [OF assms(1)]
  from keeper_history.along [OF assms(2,1)] assms(3)
  obtain k' where k': "keeper_at e' a = Some k'" "keeper_later h k k'"
    by (auto simp: keepers_kept_def)
  have "keeper_later (dev h) k k'" if "(exact_step h)\<^sup>*\<^sup>* e e'"
    using keeper_history.along_from [OF exact_run_dev [OF that inv, THEN conjunct2] inv inv] assms(3) k'(1)
    unfolding keepers_kept_def by (metis option.inject)
  with k' keeper_at_address [OF reachable_storage [OF assms(1)] assms(3)] show ?thesis
    by (auto simp: keeper_later_def)
qed

theorem keeper_lifecycle_witness:
  "\<exists>k'. keeper_at (sandbox_at Release 310) ''BOB'' = Some k' \<and> sint (stake_amount k') \<le> 50000000"
proof -
  have "exact_step (sandbox_host Release) (sandbox_at Release 300) (sandbox_at Release 310)"
    using exact_step.ledger_close [of "sandbox_at Release 300" 310 "sandbox_host Release"]
    by (simp add: sandbox_at_def)
  then have run: "(exact_step (sandbox_host Release))\<^sup>*\<^sup>* (sandbox_at Release 300) (sandbox_at Release 310)" by simp
  from keeper_lifecycle [OF _ exact_run [OF run], of "''BOB''" BOB] run show ?thesis by auto
qed

text \<open>
  C30: \<open>initialize\<close> succeeds at most once: after the administrator is set, the administrator, the
  token and the minimum stake are the same in every later state and \<open>initialize\<close> returns
  \<open>AlreadyInitialized\<close>.
\<close>
theorem initialized_once:
  assumes "reachable h e" and "admin_of e = Some admin" and "(anchor_step h)\<^sup>*\<^sup>* e e'"
  shows "admin_of e' = Some admin \<and> native_token_of e' = native_token_of e \<and>
    min_stake_of e' = min_stake_of e \<and> initialize a token m e' = (Err AlreadyInitialized, e')"
  using config_history.along [OF assms(3,1)] assms(2)
  by (auto simp: config_kept_def initialize_eq reachable_storage)

theorem initialized_once_witness:
  "initialize ''EVE'' ''FAKE'' 0 (sandbox_at Dev 300) = (Err AlreadyInitialized, sandbox_at Dev 300)"
  using initialized_once [of "sandbox_host Dev" "sandbox_at Dev 300" "''ADMIN''" "sandbox_at Dev 300"]
  by simp

section \<open>Registration, provisioning and slashing\<close>

text \<open>
  C31: \<open>register_keeper\<close> checks authorisation, stake and novelty in this order; on success the new
  record can be read back, every other keeper is untouched, and no token moves: the stake is
  recorded, never transferred.
\<close>
theorem register_keeper_correct:
  assumes "reachable h e"
  shows "(if \<not> auths e a then fst (register_keeper a st e) = Panic ''Error(Auth, InvalidAction)''
     else if sint st < sint (unwrap_or 10000000 (min_stake_of e))
       then register_keeper a st e = (Err StakeBelowMinimum, e)
     else if keeper_at e a \<noteq> None then register_keeper a st e = (Err KeeperAlreadyRegistered, e)
     else \<exists>e'. register_keeper a st e = (Ok (), e') \<and>
       get_keeper a e' = (Ok \<lparr>address = a, stake_amount = st, last_execution_ledger = 0,
                             total_executions = 0, ineligible = False\<rparr>, e') \<and>
       (\<forall>b. b = a \<or> get_keeper b e' = (fst (get_keeper b e), e')) \<and> world e' = world e)"
  using reachable_storage [OF assms]
  by (auto simp: register_keeper_eq get_keeper_eq registry.get_put new_keeper_def MIN_KEEPER_STAKE_def
      split: option.splits)

theorem register_keeper_correct_witness:
  "\<exists>e'. register_keeper ''CAROL'' 20000000 (sandbox_at Dev 300) = (Ok (), e') \<and>
     world e' = world (sandbox_at Dev 300)"
  using register_keeper_correct [of "sandbox_host Dev" "sandbox_at Dev 300" "''CAROL''" 20000000] by auto

text \<open>
  C32: \<open>provision_task\<close> returns exactly when the administrator authorised it, interval and reward
  are positive, the designated keeper is registered and eligible and (with overflow checks) neither
  the counter nor the schedule overflows; the stored task can then be read back.
\<close>
theorem provision_task_correct:
  assumes "reachable h e" and "profile h = Dev"
  shows "((\<exists>i e'. provision_task h target interval reward d e = (Ok i, e')) \<longleftrightarrow>
      (\<exists>admin k. admin_of e = Some admin \<and> auths e admin \<and> interval \<noteq> 0 \<and> 0 < sint reward \<and>
         keeper_at e d = Some k \<and> \<not> ineligible k \<and> unat (task_counter_of e) + 1 < 2 ^ 32 \<and>
         unat (sequence e) + unat interval < 2 ^ 32)) \<and>
    (\<forall>i e'. provision_task h target interval reward d e = (Ok i, e') \<longrightarrow>
      (\<exists>t. get_task i e' = (Ok t, e') \<and> task_id t = i \<and> target_drip_list t = target \<and>
        micro_reward_per_run t = reward \<and> designated_keeper t = d \<and>
        unat (next_allowed_execution t) = unat (sequence e) + unat interval \<and>
        unat (task_counter_of e') = unat (task_counter_of e) + 1))"
  using reachable_storage [OF assms(1)] assms(2)
  by (auto simp: provision_task_eq get_task_eq provisioned_def task_table.get_put Let_def not_le
      uadd_def uadd_Some_unat storage_ok_put split: option.splits if_splits)

theorem provision_task_correct_witness:
  "\<exists>i e' t. provision_task (sandbox_host Dev) ''DRIPS'' 60 7 ''BOB'' (sandbox_at Dev 300) = (Ok i, e') \<and>
     get_task i e' = (Ok t, e')"
proof -
  obtain i e' where run:
    "provision_task (sandbox_host Dev) ''DRIPS'' 60 7 ''BOB'' (sandbox_at Dev 300) = (Ok i, e')"
    by (simp add: provision_task_eq uadd_def Let_def)
  from provision_task_correct [of "sandbox_host Dev" "sandbox_at Dev 300" "''DRIPS''" 60 7 "''BOB''"] run
  show ?thesis by fastforce
qed

text \<open>
  C33: the word arithmetic of \<open>apply_slash\<close> computes the documented formula in both profiles: for a
  positive stake whose fivefold fits an \<open>i128\<close> and a treasury with room for it, it returns the floor of 5 percent and the floor of
  one half of it, and writes the reduced stake.
\<close>
theorem apply_slash_formula:
  assumes "reachable h e" and "keeper_at e a = Some k" and "0 < sint (stake_amount k)"
    and "sint (stake_amount k) * 5 < 2 ^ 127"
    and "- (2 ^ 127) \<le> sint (treasury_of e)"
    and "sint (treasury_of e) + sint (stake_amount k) < 2 ^ 127"
  shows "\<exists>slash secondary e' k'. apply_slash h a e = (Ok (slash, secondary), e') \<and>
    sint slash = sint (stake_amount k) * 5 div 100 \<and> sint secondary = sint slash div 2 \<and>
    keeper_at e' a = Some k' \<and> sint (stake_amount k') = sint (stake_amount k) - sint slash \<and>
    sint (treasury_of e') = sint (treasury_of e) + (sint slash - sint secondary)"
proof -
  let ?s = "sint (stake_amount k)"
  note ok = reachable_storage [OF assms(1)]
  have tp: "0 \<le> treasury_portion_of ?s \<and> treasury_portion_of ?s \<le> ?s"
    using assms(3) slash_of_bounds [of ?s] secondary_reward_of_bounds [of ?s]
    by (simp add: treasury_portion_of_def)
  have rng: "slash_in_range k e"
    using assms(3-6) tp by (simp add: slash_in_range_def i128_in_range_def)
  then have r5: "i128_in_range (?s * 5)"
    and rt: "i128_in_range (sint (treasury_of e) + treasury_portion_of ?s)"
    by (simp_all add: slash_in_range_def)
  note r = slash_intermediate_range [OF i128_in_range_sint r5]
  have "treasury_of (slashed_env a k e) = word_of_int (sint (treasury_of e) + treasury_portion_of ?s)"
    by (simp add: slashed_env_def del: of_int_add)
  then show ?thesis
    using apply_slash_eq [OF ok assms(2) _ rng, of h] assms(3) slashed_keeper_stake [OF r5]
      slashed_env_views(3) [OF ok assms(2)] sint_word_of_i128 [OF r(1)] sint_word_of_i128 [OF r(3)]
      sint_word_of_i128 [OF rt]
    by (simp add: slash_of_floor secondary_reward_of_floor treasury_portion_of_def)
qed

theorem apply_slash_formula_witness:
  "\<exists>slash secondary e'. apply_slash (sandbox_host Release) ''ALICE'' (sandbox_at Release 310) =
     (Ok (slash, secondary), e') \<and> sint slash = 5000000 \<and> sint secondary = 2500000"
  using apply_slash_formula [of "sandbox_host Release" "sandbox_at Release 310" "''ALICE''" ALICE] by auto

text \<open>
  The ineligibility flag is raised by the compiled-in minimum of 10,000,000 stroops and not by
  the minimum the administrator configured, which registration checks.
\<close>
lemma slash_threshold_is_constant:
  assumes "reachable h e" and "apply_slash h a e = (Ok r, e')"
  shows "\<exists>k k'. keeper_at e a = Some k \<and> keeper_at e' a = Some k' \<and>
    (ineligible k' \<longleftrightarrow> ineligible k \<or> sint (stake_amount k') < 10000000)"
  using reachable_storage [OF assms(1)] assms(2)
proof (rule apply_slash_Ok_effect)
  fix k k' treasury
  assume k: "keeper_at e a = Some k" and only: "slash_only h k k'"
    and e': "e' = (put_keeper k' (put_persistent TreasuryBalance (ScI128 treasury) e))
           \<lparr>events := events e @ [\<lparr>topics = [''slashed''],
              data = [ScAddress a, ScI128 (fst r), ScI128 (stake_amount k')]\<rparr>]\<rparr>"
  from slash_shape_views(2) [OF reachable_storage [OF assms(1)] k only e'] only k show ?thesis
    by (auto simp: slash_only_def MIN_KEEPER_STAKE_def)
qed

text \<open>
  C40: a grace-period execution against a keeper with no stake fails as a whole.  The
  \<open>zero_slsh\<close> event is published before the error is returned, so the host discards it with every
  other effect of the call.
\<close>
theorem zero_stake_slash_reverts:
  assumes "storage_ok e" and "task_at e tid = Some t" and "auths e caller"
    and "region_of (next_allowed_execution t) (sequence e) = GracePeriod"
    and "caller \<noteq> designated_keeper t" and "keeper_at e caller \<noteq> None"
    and "keeper_at e (designated_keeper t) = Some d" and "sint (stake_amount d) = 0"
  shows "host_call (execute_drip_split h tid caller) e = (Err SlashOnZeroStake, e)"
proof -
  have "execute_drip_split h tid caller e = grace_execution h tid t caller (sequence e) e"
    using assms(4-6) by (auto simp: execute_drip_split_eq [OF assms(1-3)])
  moreover have "fst (grace_execution h tid t caller (sequence e) e) = Err SlashOnZeroStake"
    by (simp add: grace_execution_def bind_c_def apply_slash_zero [OF assms(1,7,8)])
  ultimately show ?thesis
    by (cases "grace_execution h tid t caller (sequence e) e") (simp add: host_call_def)
qed

theorem zero_stake_slash_reverts_witness:
  "let e = put_keeper (ALICE\<lparr>stake_amount := 0\<rparr>) (sandbox_at Dev 310)
   in host_call (execute_drip_split (sandbox_host Dev) sandbox_task ''BOB'') e = (Err SlashOnZeroStake, e)"
proof -
  have [simp]: "address ALICE = ''ALICE''" by (simp add: ALICE_def new_keeper_def)
  show ?thesis
    unfolding Let_def
    by (rule zero_stake_slash_reverts [where t = DRIPS and d = "ALICE\<lparr>stake_amount := 0\<rparr>"])
      (simp_all add: registry.get_put)
qed

text \<open>
  C39: in the \<open>release\<close> profile the schedule wraps around.  A task provisioned with an interval
  that carries the next execution past the last ledger number is executable at once instead of
  never; with overflow checks the same call panics.
\<close>
theorem release_schedule_wraps:
  assumes "reachable h e" and "profile h = Release"
    and "provision_task h target interval reward d e = (Ok i, e')"
    and "2 ^ 32 \<le> unat (sequence e) + unat interval"
  shows "\<exists>t. task_at e' i = Some t \<and> unat (next_allowed_execution t) < unat (sequence e) \<and>
    region_of (next_allowed_execution t) (sequence e') \<noteq> PreWindow"
proof -
  have wrap: "(x + y) mod n < x" if "x < n" "y < n" "n \<le> x + y" for x y n :: nat
    using that by (simp add: le_mod_geq)
  have "unat interval < 2 ^ 32" "unat (sequence e) < 2 ^ 32"
    using unsigned_less [of interval] unsigned_less [of "sequence e"] by simp_all
  from wrap [OF this(2,1) assms(4)] have "unat (sequence e + interval) < unat (sequence e)"
    by (simp add: unat_word_ariths)
  then show ?thesis
    using assms(2,3) reachable_storage [OF assms(1)]
    by (auto simp: provision_task_eq provisioned_def task_table.get_put Let_def uadd_def region_of_def
        split: option.splits if_splits)
qed

theorem release_schedule_wraps_witness:
  "\<exists>i e' t. provision_task (sandbox_host Release) ''DRIPS'' 4294967200 7 ''BOB'' (sandbox_at Release 300) =
     (Ok i, e') \<and> task_at e' i = Some t \<and> unat (next_allowed_execution t) < 300"
proof -
  obtain i e' where run: "provision_task (sandbox_host Release) ''DRIPS'' 4294967200 7 ''BOB''
      (sandbox_at Release 300) = (Ok i, e')"
    by (simp add: provision_task_eq uadd_def Let_def)
  from release_schedule_wraps [OF _ _ run] run show ?thesis by auto
qed

text \<open>
  The slash of a release build wraps around too.  Five times a stake of \<open>2^126\<close>, which
  \<open>register_keeper\<close> records like any other, is \<open>2^126\<close> again, and the keeper loses 1 percent
  instead of 5.
\<close>

lemma release_slash_wraps:
  assumes "storage_ok e" and "profile h = Release" and "keeper_at e a = Some k"
    and "sint (stake_amount k) = 2 ^ 126"
  shows "\<exists>secondary e'. apply_slash h a e = (Ok (word_of_int (2 ^ 126 div 100), secondary), e')"
proof -
  have st: "stake_amount k = word_of_int (2 ^ 126)" using assms(4) word_of_sint [of "stake_amount k"] by simp
  have "i128_mul Release (stake_amount k) 5 = Some (word_of_int (2 ^ 126))"
    by (simp add: i128_mul_def i128_arith_def st i128_in_range_def)
  moreover have "i128_div (word_of_int (2 ^ 126)) 100 = Some (word_of_int (2 ^ 126 div 100))"
    by (simp add: i128_div_def sdiv_pos_eq i128_in_range_def)
  moreover have "i128_div (word_of_int (2 ^ 126 div 100)) 2 = Some (word_of_int (2 ^ 126 div 100 div 2))"
    by (simp add: i128_div_def sdiv_pos_eq i128_in_range_def)
  ultimately show ?thesis
    using assms
    by (auto simp: apply_slash_def comp_simps get_keeper_eq typed_instance_reads(5) Let_def i128_sub_def i128_add_def
        i128_arith_def)
qed

text \<open>
  Nothing keeps the configured minimum positive: below a negative one a keeper registers with a
  negative stake.
\<close>

lemma negative_stake_accepted:
  assumes "storage_ok e" and "auths e a" and "keeper_at e a = None" and "min_stake_of e = Some m"
    and "sint m \<le> sint st" and "sint st < 0"
  shows "\<exists>e' k. register_keeper a st e = (Ok (), e') \<and> keeper_at e' a = Some k \<and> sint (stake_amount k) < 0"
  using assms by (auto simp: register_keeper_eq registry.get_put new_keeper_def)

end
