(* ===== verification/Anchor_Protocol.thy ===== *)
theory Anchor_Protocol
  imports Anchor_Profiles
begin

text \<open>
  The keeper protocol as \<open>docs/protocol-spec.md\<close> describes it, over unbounded numbers and without
  storage tiers, events, authorisation or payments, and the proof that the contract refines it.
  In two points the rules follow the code where the document reads otherwise.  The document lets a
  grace-period execution against a zero stake succeed; the contract refuses it, and so does
  \<open>in_grace\<close>.  The document lets the configured \<open>MinKeeperStake\<close> override the minimum of 10,000,000;
  the contract does so for registrations (\<open>minimum_stake\<close>) but bars a slashed keeper below the
  compiled-in constant, and so does \<open>penalise\<close>.  Built with overflow checks, every step of a
  deployed contract is a step of the protocol or leaves the protocol state alone.
\<close>

record spec_keeper =
  stake :: int
  last_run :: nat
  runs :: nat
  barred :: bool

record spec_task =
  drip_list :: Address
  interval :: nat
  due_at :: nat
  reward :: int
  responsible :: Address

record protocol =
  settings :: "(Address \<times> Address \<times> int) option"
  keepers :: "Address \<rightharpoonup> spec_keeper"
  tasks :: "TaskId \<rightharpoonup> spec_task"
  treasury :: int
  clock :: nat

definition minimum_stake :: "protocol \<Rightarrow> int" where
  "minimum_stake s = (case settings s of None \<Rightarrow> 10000000 | Some (_, _, m) \<Rightarrow> m)"

definition penalise :: "Address \<Rightarrow> spec_keeper \<Rightarrow> protocol \<Rightarrow> protocol" where
  "penalise a d s =
     (let left = stake d - slash_of (stake d)
      in s\<lparr>keepers := (keepers s)(a \<mapsto> d\<lparr>stake := left, barred := barred d \<or> left < 10000000\<rparr>),
           treasury := treasury s + treasury_portion_of (stake d)\<rparr>)"

definition run_task :: "TaskId \<Rightarrow> spec_task \<Rightarrow> Address \<Rightarrow> spec_keeper \<Rightarrow> protocol \<Rightarrow> protocol" where
  "run_task i t a k s =
     s\<lparr>keepers := (keepers s)(a \<mapsto> k\<lparr>runs := runs k + 1, last_run := clock s\<rparr>),
       tasks := (tasks s)(i \<mapsto> t\<lparr>due_at := clock s + interval t\<rparr>)\<rparr>"

inductive protocol_step :: "protocol \<Rightarrow> protocol \<Rightarrow> bool" where
  configure: "settings s = None \<Longrightarrow> protocol_step s (s\<lparr>settings := Some (admin, token, m)\<rparr>)"
| enlist: "keepers s a = None \<Longrightarrow> minimum_stake s \<le> st \<Longrightarrow>
    protocol_step s (s\<lparr>keepers := (keepers s)(a \<mapsto>
      \<lparr>stake = st, last_run = 0, runs = 0, barred = False\<rparr>)\<rparr>)"
| schedule: "settings s \<noteq> None \<Longrightarrow> 0 < n \<Longrightarrow> 0 < r \<Longrightarrow> keepers s d = Some k \<Longrightarrow> \<not> barred k \<Longrightarrow>
    tasks s i = None \<Longrightarrow>
    protocol_step s (s\<lparr>tasks := (tasks s)(i \<mapsto>
      \<lparr>drip_list = target, interval = n, due_at = clock s + n, reward = r, responsible = d\<rparr>)\<rparr>)"
| on_time: "tasks s i = Some t \<Longrightarrow> clock s = due_at t \<Longrightarrow> keepers s (responsible t) = Some k \<Longrightarrow>
    protocol_step s (run_task i t (responsible t) k s)"
| in_grace: "tasks s i = Some t \<Longrightarrow> due_at t < clock s \<Longrightarrow> clock s \<le> due_at t + 50 \<Longrightarrow>
    a \<noteq> responsible t \<Longrightarrow> keepers s a = Some k \<Longrightarrow>
    keepers s (responsible t) = Some d \<Longrightarrow> stake d \<noteq> 0 \<Longrightarrow>
    protocol_step s (run_task i t a k (penalise (responsible t) d s))"
| late: "tasks s i = Some t \<Longrightarrow> due_at t + 50 < clock s \<Longrightarrow> keepers s a = Some k \<Longrightarrow>
    protocol_step s (run_task i t a k s)"
| tick: "clock s < l \<Longrightarrow> protocol_step s (s\<lparr>clock := l\<rparr>)"

section \<open>The protocol state of a contract\<close>

definition abs_keeper :: "Keeper \<Rightarrow> spec_keeper" where
  "abs_keeper k = \<lparr>stake = sint (stake_amount k), last_run = unat (last_execution_ledger k),
     runs = unat (total_executions k), barred = ineligible k\<rparr>"

definition abs_task :: "ExecutionTask \<Rightarrow> spec_task" where
  "abs_task t = \<lparr>drip_list = target_drip_list t, interval = unat (execution_interval_ledgers t),
     due_at = unat (next_allowed_execution t), reward = sint (micro_reward_per_run t),
     responsible = designated_keeper t\<rparr>"

definition abs_settings :: "'w Env \<Rightarrow> (Address \<times> Address \<times> int) option" where
  "abs_settings e = (case (admin_of e, native_token_of e, min_stake_of e) of
       (Some a, Some t, Some m) \<Rightarrow> Some (a, t, sint m)
     | _ \<Rightarrow> None)"

definition protocol_of :: "'w Env \<Rightarrow> protocol" where
  "protocol_of e = \<lparr>settings = abs_settings e, keepers = map_option abs_keeper \<circ> keeper_at e,
     tasks = map_option abs_task \<circ> task_at e, treasury = sint (treasury_of e),
     clock = unat (sequence e)\<rparr>"

lemma protocol_of_simps [simp]:
  "settings (protocol_of e) = abs_settings e"
  "keepers (protocol_of e) a = map_option abs_keeper (keeper_at e a)"
  "tasks (protocol_of e) i = map_option abs_task (task_at e i)"
  "treasury (protocol_of e) = sint (treasury_of e)" "clock (protocol_of e) = unat (sequence e)"
  by (simp_all add: protocol_of_def)

lemma protocol_of_eqI:
  assumes "abs_settings e = settings s" and "\<And>a. map_option abs_keeper (keeper_at e a) = keepers s a"
    and "\<And>i. map_option abs_task (task_at e i) = tasks s i"
    and "sint (treasury_of e) = treasury s" and "unat (sequence e) = clock s"
  shows "protocol_of e = s"
  using assms by (simp add: protocol_of_def comp_def) 

lemma abs_settings_instance: "instance_st e' = instance_st e \<Longrightarrow> abs_settings e' = abs_settings e"
  using views_of_instance [of e' e] by (simp add: abs_settings_def)

lemma protocol_of_blind [simp]:
  "protocol_of (e\<lparr>auths := A\<rparr>) = protocol_of e" "protocol_of (e\<lparr>world := w\<rparr>) = protocol_of e"
  by (simp_all add: protocol_of_def abs_settings_def)

text \<open>The two abstract updates match what an execution writes.\<close>

lemma abs_counted:
  assumes "profile h = Dev" and "counted h l k k'"
  shows "abs_keeper k' = (abs_keeper k)\<lparr>runs := runs (abs_keeper k) + 1, last_run := unat l\<rparr>"
  using assms counted_total [OF assms] by (auto simp: counted_def abs_keeper_def)

lemma abs_slashed:
  assumes "i128_in_range (sint (stake_amount k) * 5)"
  shows "abs_keeper (slashed_keeper k) =
    (let left = stake (abs_keeper k) - slash_of (stake (abs_keeper k))
     in (abs_keeper k)\<lparr>stake := left, barred := barred (abs_keeper k) \<or> left < 10000000\<rparr>)"
  using slashed_keeper_stake [OF assms]
  by (simp add: abs_keeper_def Let_def) (simp add: slashed_keeper_def Let_def MIN_KEEPER_STAKE_def)

lemma execute_refines:
  assumes dev: "profile h = Dev" and ok: "storage_ok e"
    and ret: "execute_drip_split h tid caller e = (Ok u, e')"
  shows "protocol_step (protocol_of e) (protocol_of e')"
  using ok ret
proof (rule execute_drip_split_views)
  fix t :: ExecutionTask and n k k' m
  let ?r = "region_of (next_allowed_execution t) (sequence e)"
  assume t: "task_at e tid = Some t"
    and n: "uadd (profile h) (sequence e) (execution_interval_ledgers t) = Some n"
    and k: "keeper_at e caller = Some k" and k': "counted h (sequence e) k k'"
    and eff: "if ?r = GracePeriod then grace_effect h tid t caller e m e' else plain_effect tid t caller e m e'"
    and e': "task_at e' = (task_at e)(tid \<mapsto> t\<lparr>next_allowed_execution := n\<rparr>)" "keeper_at e' = m(caller \<mapsto> k')"
      "instance_st e' = instance_st e" "sequence e' = sequence e"
  have adm: "admitted ?r (caller = designated_keeper t) (keeper_at e caller \<noteq> None)"
    using ok ret by (rule execute_drip_split_Ok) (use t in auto)
  from n dev have n': "abs_task (t\<lparr>next_allowed_execution := n\<rparr>) =
      (abs_task t)\<lparr>due_at := unat (sequence e) + interval (abs_task t)\<rparr>"
    by (auto simp: uadd_Dev_Some uadd_Some_unat abs_task_def)
  note upd = n' abs_counted [OF dev k'] abs_settings_instance [OF e'(3)] run_task_def e'
  have at: "tasks (protocol_of e) tid = Some (abs_task t)" "keepers (protocol_of e) caller = Some (abs_keeper k)"
    using t k by simp_all
  show ?thesis
  proof (cases "?r = GracePeriod")
    case True
    with eff dev obtain d where d: "keeper_at e (designated_keeper t) = Some d" "caller \<noteq> designated_keeper t"
      "sint (stake_amount d) \<noteq> 0" "slash_in_range d e" "m = (keeper_at e)(designated_keeper t \<mapsto> slashed_keeper d)"
      and tr: "sint (treasury_of e') = sint (treasury_of e) + treasury_portion_of (sint (stake_amount d))"
      by (auto simp: grace_effect_def slash_only_def slash_paid_def treasury_portion_of_def)
    have "protocol_of e' = run_task tid (abs_task t) caller (abs_keeper k)
        (penalise (designated_keeper t) (abs_keeper d) (protocol_of e))"
      using d tr abs_slashed [of d]
      by (intro protocol_of_eqI)
        (auto simp: upd penalise_def Let_def slash_in_range_def abs_keeper_def [of d])
    with in_grace [of "protocol_of e" tid "abs_task t" caller "abs_keeper k" "abs_keeper d"] d at True
    show ?thesis by (auto simp: abs_task_def abs_keeper_def [of d] region_of_def split: if_splits)
  next
    case False
    with eff have "m = keeper_at e" "treasury_of e' = treasury_of e" by (simp_all add: plain_effect_def)
    then have "protocol_of e' = run_task tid (abs_task t) caller (abs_keeper k) (protocol_of e)"
      by (intro protocol_of_eqI) (auto simp: upd)
    with False adm on_time [of "protocol_of e" tid "abs_task t" "abs_keeper k"]
      late [of "protocol_of e" tid "abs_task t" caller "abs_keeper k"] at
    show ?thesis by (auto simp: abs_task_def region_of_def split: if_splits)
  qed
qed

lemma returned_call_refines:
  assumes dev: "profile h = Dev" and cf: "collision_free h" and inv: "contract_inv e"
    and ids: "task_ids_ok h e" and ret: "anchor_contract h c e = (Ok r, e')"
  shows "protocol_of e' = protocol_of e \<or> protocol_step (protocol_of e) (protocol_of e')"
  using contract_inv_storage [OF inv] ret
proof (cases rule: returned_call_cases)
  case (init a token m)
  then have "protocol_of e' = (protocol_of e)\<lparr>settings := Some (a, token, sint m)\<rparr>"
    by (intro protocol_of_eqI) (auto simp: abs_settings_def)
  with init configure [of "protocol_of e" a token "sint m"] show ?thesis
    by (simp add: abs_settings_def)
next
  case (register a st)
  then have "protocol_of e' = (protocol_of e)\<lparr>keepers := (keepers (protocol_of e))(a \<mapsto>
      \<lparr>stake = sint st, last_run = 0, runs = 0, barred = False\<rparr>)\<rparr>"
    by (intro protocol_of_eqI)
      (auto simp: abs_settings_def registry.get_put new_keeper_def abs_keeper_def)
  moreover have "minimum_stake (protocol_of e) = sint (unwrap_or MIN_KEEPER_STAKE (min_stake_of e))"
    using inv by (auto simp: minimum_stake_def abs_settings_def contract_inv_def config_ok_def
        MIN_KEEPER_STAKE_def split: option.splits)
  ultimately show ?thesis
    using enlist [of "protocol_of e" a "sint st"] register by simp
next
  case (provision target n rw d admin k cn nx t)
  then have "protocol_of e' = (protocol_of e)\<lparr>tasks := (tasks (protocol_of e))(task_id t \<mapsto>
      \<lparr>drip_list = target, interval = unat n, due_at = unat (sequence e) + unat n, reward = sint rw,
       responsible = d\<rparr>)\<rparr>"
    using dev by (intro protocol_of_eqI)
      (auto simp: abs_settings_def task_table.get_put provisioned_def abs_task_def uadd_Dev_Some
        uadd_Some_unat)
  moreover have "task_at e (task_id t) = None"
    using fresh_task_id [OF cf dev ids] provision(10) by (simp add: provisioned_def)
  moreover have "abs_settings e \<noteq> None"
    using inv provision(2) by (auto simp: abs_settings_def contract_inv_def config_ok_def split: option.splits)
  ultimately show ?thesis
    using schedule [of "protocol_of e" "unat n" "sint rw" d "abs_keeper k" "task_id t" target] provision
    by (simp add: abs_keeper_def unat_gt_0)
next
  case (execute tid caller)
  with execute_refines [OF dev contract_inv_storage [OF inv]] show ?thesis by blast
qed simp

lemma step_refines:
  assumes dev: "profile h = Dev" and cf: "collision_free h" and r: "reachable h e"
    and step: "anchor_step h e e'"
  shows "protocol_of e' = protocol_of e \<or> protocol_step (protocol_of e) (protocol_of e')"
  using step
proof (cases rule: anchor_step.cases)
  case (invoke c A)
  have inv: "contract_inv (e\<lparr>auths := A\<rparr>)" "task_ids_ok h (e\<lparr>auths := A\<rparr>)"
    using reachable_contract_inv [OF r] task_ids.everywhere [OF r] by (simp_all add: task_ids.blind)
  from invoke returned_call_refines [OF dev cf inv] show ?thesis
    by (cases rule: host_call_cases [of "anchor_contract h c" "e\<lparr>auths := A\<rparr>"]) auto
next
  case (ledger_close l)
  then have "protocol_of e' = (protocol_of e)\<lparr>clock := unat l\<rparr>"
    by (intro protocol_of_eqI) (auto simp: abs_settings_def)
  with ledger_close tick [of "protocol_of e" "unat l"] show ?thesis
    by (simp add: word_less_nat_alt)
qed simp

definition genesis :: "nat \<Rightarrow> protocol" where
  "genesis l = \<lparr>settings = None, keepers = Map.empty, tasks = Map.empty, treasury = 0, clock = l\<rparr>"

lemma reachable_refines:
  assumes "profile h = Dev" and "collision_free h" and "reachable h e"
  shows "\<exists>l. protocol_step\<^sup>*\<^sup>* (genesis l) (protocol_of e)"
  using assms(3)
proof (induction rule: reachable.induct)
  case (deploy l self w)
  have "protocol_of (deployed l self w) = genesis (unat l)"
    by (rule protocol_of_eqI) (simp_all add: genesis_def abs_settings_def)
  then show ?case by auto
next
  case (step e e')
  from step.IH step_refines [OF assms(1,2) step(1,2)] show ?case
    by (auto intro: rtranclp.rtrancl_into_rtrancl)
qed

lemma run_refines:
  assumes "profile h = Dev" and "collision_free h" and "reachable h e" and "(anchor_step h)\<^sup>*\<^sup>* e s"
  shows "protocol_step\<^sup>*\<^sup>* (protocol_of e) (protocol_of s)"
  using assms(4)
proof (induction rule: rtranclp_induct)
  case (step s s')
  from rtranclp_step_reachable [OF step(1) assms(3)] step_refines [OF assms(1,2) _ step(2)] step.IH
  show ?case by (auto intro: rtranclp.rtrancl_into_rtrancl)
qed simp

text \<open>
  C3: the contract refines the protocol.  Built with overflow checks and with a collision-free
  hash, every step of a deployed contract (a call with any authorisations, a ledger close, a change
  made elsewhere) is a step of the protocol of the specification or leaves its state unchanged, and
  its state is one the protocol reaches.  The release build does the same as long as no call needs an
  overflow check: its histories are histories of the protocol.
\<close>
theorem contract_refines_protocol:
  assumes "profile h = Dev" and "collision_free h" and "reachable h e" and "anchor_step h e e'"
  shows "(protocol_of e' = protocol_of e \<or> protocol_step (protocol_of e) (protocol_of e')) \<and>
    (\<exists>l. protocol_step\<^sup>*\<^sup>* (genesis l) (protocol_of e')) \<and>
    (\<forall>s. (exact_step (release h))\<^sup>*\<^sup>* e s \<longrightarrow> protocol_step\<^sup>*\<^sup>* (protocol_of e) (protocol_of s))"
proof -
  have dev: "h\<lparr>profile := Dev\<rparr> = h" using assms(1) by simp
  have "protocol_step\<^sup>*\<^sup>* (protocol_of e) (protocol_of s)" if "(exact_step (release h))\<^sup>*\<^sup>* e s" for s
    using run_refines [OF assms(1-3)] exact_release_any [OF that reachable_contract_inv [OF assms(3)], of Dev]
    by (simp add: dev)
  then show ?thesis
    using step_refines [OF assms] reachable_refines [OF assms(1,2) reachable.step [OF assms(3,4)]] by blast
qed

theorem contract_refines_protocol_witness:
  "anchor_step (sandbox_host Dev) (sandbox_at Dev 300) (sandbox_at Dev 310) \<and>
   (\<exists>l. protocol_step\<^sup>*\<^sup>* (genesis l) (protocol_of (sandbox_at Dev 310)))"
proof -
  have step: "anchor_step (sandbox_host Dev) (sandbox_at Dev 300) (sandbox_at Dev 310)"
    using anchor_step.ledger_close [of "sandbox_at Dev 300" 310 "sandbox_host Dev"]
    by (simp add: sandbox_at_def)
  from contract_refines_protocol [OF _ sandbox_collision_free reachable_sandbox_at this] step
  show ?thesis by simp
qed

end
