(* ===== verification/Anchor_Solvency.thy ===== *)
theory Anchor_Solvency
  imports Anchor_Sandbox
begin

text \<open>
  What leaves the contract's balance over a whole history.  The events \<open>task_exec\<close> and \<open>task_sec\<close>
  announce every payment of \<open>execution.rs\<close>; the contract never holds less than it held before minus
  what was announced since, in both build profiles.
\<close>

section \<open>Announced payments\<close>

definition payout :: "event \<Rightarrow> int" where
  "payout ev =
     (if topics ev = [''task_exec''] then (case data ev of [_, _, _, ScI128 r] \<Rightarrow> sint r | _ \<Rightarrow> 0)
      else if topics ev = [''task_sec''] then
        (case data ev of [_, _, _, _, _, ScI128 secondary, ScI128 r] \<Rightarrow> sint r + max 0 (sint secondary) | _ \<Rightarrow> 0)
      else 0)"

definition payouts :: "event list \<Rightarrow> int" where
  "payouts evs = sum_list (map payout evs)"

lemma payout_events [simp]:
  "payout (task_exec_event t a l) = sint (micro_reward_per_run t)"
  "payout (task_sec_event tid t a l slash secondary) = sint (micro_reward_per_run t) + max 0 (sint secondary)"
  "payout (missed_event tid n) = 0" "payout (task_prov_event t) = 0"
  "payout \<lparr>topics = [''kpr_reg''], data = d\<rparr> = 0" "payout \<lparr>topics = [''slashed''], data = d\<rparr> = 0"
  by (simp_all add: payout_def task_exec_event_def task_sec_event_def missed_event_def task_prov_event_def)

lemma payouts_simps [simp]:
  "payouts [] = 0" "payouts (ev # evs) = payout ev + payouts evs" "payouts (xs @ ys) = payouts xs + payouts ys"
  by (simp_all add: payouts_def)

section \<open>Spending\<close>

text \<open>\<open>spends bal self n w w'\<close>: the balance of \<open>self\<close> fell by at most \<open>n\<close>.\<close>

definition spends :: "(Address \<Rightarrow> 'w \<Rightarrow> i128 option) \<Rightarrow> Address \<Rightarrow> int \<Rightarrow> 'w \<Rightarrow> 'w \<Rightarrow> bool" where
  "spends bal self n w w' \<longleftrightarrow>
     (\<forall>x. bal self w = Some x \<longrightarrow> (\<exists>y. bal self w' = Some y \<and> sint x - n \<le> sint y))"

lemma spends_refl [simp]: "spends bal self 0 w w"
  by (simp add: spends_def)

lemma spends_trans: "spends bal self n w w' \<Longrightarrow> spends bal self m w' w'' \<Longrightarrow> spends bal self (n + m) w w''"
  unfolding spends_def by fastforce

text \<open>
  What is assumed of the token and of the Drip Lists.  The token follows SEP-41, answers for the
  contract's own balance, and lets a transfer through only to a holder it has a balance for.  The token
  charges a holder only when that holder signed for the call or is itself the caller of the token.  A
  Drip List is neither, as the contract signs nothing for the call it makes to \<open>distribute_wave_splits\<close>
  and the host refuses re-entry; so that one call does not lower the contract's balance, though it may
  raise it.  Nothing is assumed of other calls: the contract's own \<open>transfer\<close> does lower it.
\<close>

definition drip_lists_guarded :: "'w Host \<Rightarrow> Address \<Rightarrow> Address \<Rightarrow> bool" where
  "drip_lists_guarded h token self \<longleftrightarrow> (\<forall>c w w'.
     invoke_contract h c ''distribute_wave_splits'' [] w = Some w' \<longrightarrow>
       spends (token_balance h token) self 0 w w')"

definition guarded_token :: "'w Host \<Rightarrow> Address \<Rightarrow> Address \<Rightarrow> bool" where
  "guarded_token h token self \<longleftrightarrow>
     sep41_token (token_balance h token) (token_transfer h token) \<and>
     (\<forall>w. token_balance h token self w \<noteq> None) \<and>
     (\<forall>a n w w'. token_transfer h token self a n w = Some w' \<longrightarrow> token_balance h token a w \<noteq> None) \<and>
     drip_lists_guarded h token self"

lemma paid_spends:
  assumes "guarded_token h token (self_address e)" and "native_token_of e = Some token"
    and "caller \<noteq> self_address e" and "paid h e caller n w"
  shows "spends (token_balance h token) (self_address e) (sint n) (world e) w"
proof -
  from assms(2,4) have "token_transfer h token (self_address e) caller n (world e) = Some w"
    by (auto simp: paid_def)
  with assms(1) have "token_balance h token caller (world e) \<noteq> None"
    unfolding guarded_token_def by blast
  with paid_moves [of h token e caller n w] assms show ?thesis
    by (auto simp: guarded_token_def moved_def spends_def)
qed

lemma distribution_spends:
  assumes ok: "storage_ok e" and guard: "guarded_token h token (self_address e)"
    and tok: "native_token_of e = Some token" and other: "caller \<noteq> self_address e"
    and ret: "execute_distribution h t caller sec e = (Ok u, e')"
  shows "spends (token_balance h token) (self_address e) (sint (micro_reward_per_run t)) (world e) (world e')"
proof -
  from ret obtain w1 w2 n k tot where
    inv: "invoke_contract h (target_drip_list t) ''distribute_wave_splits'' [] (world e) = Some w1"
    and paid: "paid h (e\<lparr>world := w1\<rparr>) caller (micro_reward_per_run t) w2"
    and e': "e' = executed_env t caller sec n k tot w2 e"
    by (auto simp: execute_distribution_Ok_iff [OF ok])
  have "spends (token_balance h token) (self_address e) 0 (world e) w1"
    using guard inv by (auto simp: guarded_token_def drip_lists_guarded_def)
  from spends_trans [OF this] paid_spends [OF _ _ _ paid, of token] guard tok other show ?thesis
    by (simp add: e' executed_env_def)
qed

lemma grace_spends:
  assumes ok: "storage_ok e" and guard: "guarded_token h token (self_address e)"
    and tok: "native_token_of e = Some token" and other: "caller \<noteq> self_address e"
    and t: "task_at e tid = Some t" and ret: "grace_execution h tid t caller l e = (Ok u, e')"
  shows "\<exists>evs. events e' = events e @ evs \<and>
    spends (token_balance h token) (self_address e) (payouts evs) (world e) (world e')"
proof -
  from ret obtain slash secondary e1 e2 e3 where
    sl: "apply_slash h (designated_keeper t) e = (Ok (slash, secondary), e1)"
    and di: "execute_distribution h t caller True e1 = (Ok (), e2)"
    and pay: "if 0 < sint secondary then pay_from_contract h caller secondary e2 = (Ok (), e3) else e3 = e2"
    and e': "e' = e3\<lparr>events := events e3 @ [task_sec_event tid t caller l slash secondary]\<rparr>"
    by (auto simp: grace_execution_Ok_iff)
  from apply_slash_Ok_effect [OF ok sl] obtain d d' treasury where
    d: "keeper_at e (designated_keeper t) = Some d" and only: "slash_only h d d'"
    and e1: "e1 = (put_keeper d' (put_persistent TreasuryBalance (ScI128 treasury) e))
           \<lparr>events := events e @ [\<lparr>topics = [''slashed''],
              data = [ScAddress (designated_keeper t), ScI128 slash, ScI128 (stake_amount d')]\<rparr>]\<rparr>"
    by (metis fst_conv)
  note v1 = slash_shape_views [OF ok d only e1]
  have n1: "native_token_of e1 = Some token" using tok views_of_instance(2) [OF v1(4)] by simp
  from execute_distribution_views [OF v1(1) _ di, of tid] t v1(3) have v2: "storage_ok e2"
    "instance_st e2 = instance_st e1" "self_address e2 = self_address e1" "events e2 = events e1" by auto
  have n2: "native_token_of e2 = Some token" using n1 views_of_instance(2) [OF v2(2)] by simp
  have m: "spends (token_balance h token) (self_address e) (sint (micro_reward_per_run t)) (world e) (world e2)"
    using distribution_spends [OF v1(1) _ n1 _ di] guard other by (simp add: v1)
  have e3: "events e3 = events e2 \<and> spends (token_balance h token) (self_address e) (max 0 (sint secondary)) (world e2) (world e3)"
  proof (cases "0 < sint secondary")
    case True
    with pay obtain w where w: "paid h e2 caller secondary w" "e3 = e2\<lparr>world := w\<rparr>"
      by (auto simp: pay_from_contract_Ok_iff [OF v2(1)])
    with paid_spends [OF _ n2 _ w(1)] guard other True show ?thesis by (simp add: v1 v2)
  next
    case False
    with pay show ?thesis by simp
  qed
  let ?evs = "[\<lparr>topics = [''slashed''],
      data = [ScAddress (designated_keeper t), ScI128 slash, ScI128 (stake_amount d')]\<rparr>,
      task_sec_event tid t caller l slash secondary]"
  have "events e' = events e @ ?evs"
    using e3 v2(4) by (simp add: e' e1)
  moreover from spends_trans [OF m, of "max 0 (sint secondary)" "world e3"] e3
  have "spends (token_balance h token) (self_address e)
      (sint (micro_reward_per_run t) + max 0 (sint secondary)) (world e) (world e')" by (simp add: e')
  ultimately show ?thesis by (intro exI [of _ ?evs]) simp
qed

lemma execution_spends:
  assumes ok: "storage_ok e" and guard: "guarded_token h token (self_address e)"
    and tok: "native_token_of e = Some token" and other: "caller \<noteq> self_address e"
    and ret: "execute_drip_split h tid caller e = (Ok u, e')"
  shows "\<exists>evs. events e' = events e @ evs \<and>
    spends (token_balance h token) (self_address e) (payouts evs) (world e) (world e')"
  using execute_drip_split_Ok [OF ok ret]
proof cases
  case (1 t)
  show ?thesis
  proof (cases "region_of (next_allowed_execution t) (sequence e) = GracePeriod")
    case True
    from grace_spends [OF ok guard tok other 1(1) 1(4) [OF True]] show ?thesis .
  next
    case False
    let ?pre = "if region_of (next_allowed_execution t) (sequence e) = PostGrace
              then [missed_event tid (sequence e - next_allowed_execution t)] else []"
    let ?e = "e\<lparr>events := events e @ ?pre\<rparr>"
    have run: "execute_distribution h t caller False ?e = (Ok (), e')"
      using 1(5) [OF False] by (simp split: if_splits)
    have v: "storage_ok ?e" "task_at ?e tid = Some t" "native_token_of ?e = Some token"
      "self_address ?e = self_address e" "world ?e = world e" "sequence ?e = sequence e"
      using ok tok 1(1) by simp_all
    from execute_distribution_views [OF v(1,2) run]
    have "events e' = events ?e @ (if False then [] else [task_exec_event t caller (sequence ?e)])" by metis
    then have "events e' = events e @ ?pre @ [task_exec_event t caller (sequence e)]" by simp
    moreover have "payouts (?pre @ [task_exec_event t caller (sequence e)]) = sint (micro_reward_per_run t)"
      by simp
    moreover from distribution_spends [OF v(1) _ v(3) _ run] guard other
    have "spends (token_balance h token) (self_address e) (sint (micro_reward_per_run t)) (world e) (world e')"
      unfolding v by blast
    ultimately show ?thesis by metis
  qed
qed

section \<open>Histories\<close>

text \<open>
  Steps in which nobody signs for the contract and changes made elsewhere do not lower its balance.
\<close>

inductive guarded_step :: "'w Host \<Rightarrow> Address \<Rightarrow> 'w Env \<Rightarrow> 'w Env \<Rightarrow> bool" for h token where
  invoke: "\<not> A (self_address e) \<Longrightarrow>
     guarded_step h token e (snd (host_call (anchor_contract h c) (e\<lparr>auths := A\<rparr>)))"
| ledger_close: "sequence e < l \<Longrightarrow> guarded_step h token e (e\<lparr>sequence := l\<rparr>)"
| outside: "spends (token_balance h token) (self_address e) 0 (world e) w \<Longrightarrow>
     guarded_step h token e (e\<lparr>world := w\<rparr>)"

lemma guarded_is_step: "guarded_step h token e e' \<Longrightarrow> anchor_step h e e'"
  by (induction rule: guarded_step.induct) (auto intro: anchor_step.intros)

definition accounted_for :: "'w Host \<Rightarrow> Address \<Rightarrow> 'w Env \<Rightarrow> 'w Env \<Rightarrow> bool" where
  "accounted_for h token e e' \<longleftrightarrow> native_token_of e' = Some token \<and> self_address e' = self_address e \<and>
     (\<exists>evs. events e' = events e @ evs \<and>
        spends (token_balance h token) (self_address e) (payouts evs) (world e) (world e'))"

lemma accounted_for_refl: "native_token_of e = Some token \<Longrightarrow> accounted_for h token e e"
  by (simp add: accounted_for_def)

lemma accounted_for_trans:
  assumes "accounted_for h token e e'" and "accounted_for h token e' e''"
  shows "accounted_for h token e e''"
proof -
  from assms obtain evs evs' where "events e' = events e @ evs" "events e'' = events e' @ evs'"
    "spends (token_balance h token) (self_address e) (payouts evs) (world e) (world e')"
    "spends (token_balance h token) (self_address e) (payouts evs') (world e') (world e'')"
    by (auto simp: accounted_for_def)
  with spends_trans [OF this(3,4)] assms show ?thesis
    by (auto simp: accounted_for_def intro!: exI [of _ "evs @ evs'"])
qed

lemma returned_accounted:
  assumes inv: "contract_inv e" and guard: "guarded_token h token (self_address e)"
    and tok: "native_token_of e = Some token" and other: "\<not> auths e (self_address e)"
    and ret: "anchor_contract h c e = (Ok r, e')"
  shows "accounted_for h token e e'"
  using contract_inv_storage [OF inv] ret
proof (cases rule: returned_call_cases)
  case (init a tk m)
  with inv tok show ?thesis by (simp add: contract_inv_def config_ok_def)
next
  case (execute tid caller)
  note ok = contract_inv_storage [OF inv]
  from execute_drip_split_Ok [OF ok execute(2)] have "auths e caller" by metis
  with other have "caller \<noteq> self_address e" by auto
  note sp = execution_spends [OF ok guard tok this execute(2)]
  from execute_drip_split_views [OF ok execute(2)] have "instance_st e' = instance_st e"
    "self_address e' = self_address e" by metis+
  with sp tok views_of_instance(2) [of e' e] show ?thesis by (simp add: accounted_for_def)
qed (use tok in \<open>auto simp: accounted_for_def\<close>)

lemma step_accounted:
  assumes inv: "contract_inv e" and guard: "guarded_token h token (self_address e)"
    and tok: "native_token_of e = Some token" and step: "guarded_step h token e e'"
  shows "accounted_for h token e e'"
  using step
proof cases
  case (invoke A c)
  show ?thesis
    unfolding invoke(1)
  proof (cases rule: host_call_cases [of "anchor_contract h c" "e\<lparr>auths := A\<rparr>"])
    case (returned a e'')
    from returned_accounted [OF _ _ _ _ returned(1)] inv guard tok invoke(2)
    have "accounted_for h token (e\<lparr>auths := A\<rparr>) e''" by simp
    with returned(2) show "accounted_for h token e (snd (host_call (anchor_contract h c) (e\<lparr>auths := A\<rparr>)))"
      by (simp add: accounted_for_def)
  qed (use tok in \<open>simp add: accounted_for_def\<close>)
qed (use tok in \<open>simp_all add: accounted_for_def\<close>)

lemma history_accounted:
  assumes run: "(guarded_step h token)\<^sup>*\<^sup>* e e'" and r: "reachable h e"
    and guard: "guarded_token h token (self_address e)" and tok: "native_token_of e = Some token"
  shows "accounted_for h token e e' \<and> reachable h e'"
  using run
proof (induction rule: rtranclp_induct)
  case base
  with r tok show ?case by (simp add: accounted_for_refl)
next
  case (step e' e'')
  then have r': "reachable h e'" and acc: "accounted_for h token e e'" by simp_all
  then have "self_address e' = self_address e" "native_token_of e' = Some token"
    by (simp_all add: accounted_for_def)
  with step_accounted [OF reachable_contract_inv [OF r'] _ _ step(2)] guard
  have "accounted_for h token e' e''" by simp
  with acc r' step(2) show ?case
    using accounted_for_trans guarded_is_step reachable.step by metis
qed
section \<open>Property\<close>

text \<open>The grace-period run of the sandbox, signed by everyone but the contract itself.\<close>

definition signed_at :: "cargo_profile \<Rightarrow> u32 \<Rightarrow> token_ledger Env" where
  "signed_at p l = (sandbox_at p l)\<lparr>auths := (\<lambda>a. a \<noteq> ''ANCHOR'')\<rparr>"

lemma paid_auths [simp]: "paid h (e\<lparr>auths := A\<rparr>) = paid h e" "paid h (e\<lparr>auths := A, world := w\<rparr>) = paid h (e\<lparr>world := w\<rparr>)"
  by (simp_all add: paid_def fun_eq_iff)

lemma signed_views [simp]:
  "keeper_at (signed_at p l) = [''ALICE'' \<mapsto> ALICE, ''BOB'' \<mapsto> BOB]"
  "task_at (signed_at p l) = [sandbox_task \<mapsto> DRIPS]" "native_token_of (signed_at p l) = Some ''XLM''"
  "treasury_of (signed_at p l) = 0" "sequence (signed_at p l) = l" "self_address (signed_at p l) = ''ANCHOR''"
  "auths (signed_at p l) = (\<lambda>a. a \<noteq> ''ANCHOR'')" "world (signed_at p l) = (\<lambda>_. 0)(''ANCHOR'' := 500000000)"
  "storage_ok (signed_at p l)" "events (signed_at p l) = events (sandbox_at p l)"
  by (simp_all add: signed_at_def)

lemma signed_grace_run:
  "\<exists>e'. execute_drip_split (sandbox_host p) sandbox_task ''BOB'' (signed_at p 310) = (Ok (), e')"
proof (rule execute_drip_split_returns [where t = DRIPS and k = BOB])
  let ?w = "\<lambda>a. if a = ''ANCHOR'' then 495000000 else if a = ''BOB'' then 5000000 else 0"
  show "paid (sandbox_host p) ((signed_at p 310)\<lparr>world := (\<lambda>_. 0)(''ANCHOR'' := 500000000)\<rparr>) ''BOB''
      (micro_reward_per_run DRIPS) ?w"
    using sandbox_paid(2) [of p 310] by (simp add: signed_at_def)
  have "paid (sandbox_host p) ((signed_at p 310)\<lparr>world := ?w\<rparr>) ''BOB'' 2500000
     (\<lambda>a. if a = ''ANCHOR'' then 492500000 else if a = ''BOB'' then 7500000 else 0)"
    using sandbox_paid(3) [of p 310] by (simp add: signed_at_def)
  then show "slash_payable (sandbox_host p) (signed_at p 310) (designated_keeper DRIPS) ''BOB'' ?w"
    by (auto simp: slash_payable_def slash_in_range_def)
qed (simp_all add: uadd_no_overflow)

lemma sandbox_guarded: "guarded_token (sandbox_host p) token self"
  using sandbox_sep41 by (auto simp: guarded_token_def drip_lists_guarded_def)

text \<open>
  C13: the contract spends only what it announces.  Take any history of a deployed contract, in either
  build, in which nobody signs for the contract itself and no change made elsewhere lowers its balance.
  If the token is a SEP-41 token and the Drip Lists, which act without the contract's authorisation, do
  not lower its balance when \<open>distribute_wave_splits\<close> is called on them, the contract's balance at the end is at least the balance at the
  start minus the payments published in between: the rewards of \<open>task_exec\<close> and, for \<open>task_sec\<close>, the
  reward plus the secondary's share of the slash.
\<close>
theorem spending_is_announced:
  assumes "reachable h e" and "native_token_of e = Some token" and "guarded_token h token (self_address e)"
    and "(guarded_step h token)\<^sup>*\<^sup>* e e'"
  shows "\<exists>evs x y. events e' = events e @ evs \<and>
    token_balance h token (self_address e) (world e) = Some x \<and>
    token_balance h token (self_address e) (world e') = Some y \<and>
    sint x - payouts evs \<le> sint y"
proof -
  from history_accounted [OF assms(4,1,3,2)] obtain evs where evs: "events e' = events e @ evs"
    and sp: "spends (token_balance h token) (self_address e) (payouts evs) (world e) (world e')"
    by (auto simp: accounted_for_def)
  from assms(3) obtain x where "token_balance h token (self_address e) (world e) = Some x"
    unfolding guarded_token_def by blast
  with evs sp show ?thesis unfolding spends_def by blast
qed

theorem spending_is_announced_witness:
  "\<exists>e' evs y. execute_drip_split (sandbox_host Release) sandbox_task ''BOB'' (signed_at Release 310) = (Ok (), e') \<and>
     events e' = events (sandbox_at Release 310) @ evs \<and> world e' ''ANCHOR'' = y \<and> 500000000 - payouts evs \<le> sint y"
proof -
  let ?h = "sandbox_host Release" and ?e = "sandbox_at Release 310"
  obtain e' where run: "execute_drip_split ?h sandbox_task ''BOB'' (signed_at Release 310) = (Ok (), e')"
    using signed_grace_run by blast
  then have "snd (host_call (anchor_contract ?h (ExecuteDripSplit sandbox_task ''BOB'')) (signed_at Release 310)) = e'"
    by (simp add: host_call_returned reply_with_returned)
  with guarded_step.invoke [of "\<lambda>a. a \<noteq> ''ANCHOR''" ?e ?h "''XLM''" "ExecuteDripSplit sandbox_task ''BOB''"]
  have "(guarded_step ?h ''XLM'')\<^sup>*\<^sup>* ?e e'" by (simp add: signed_at_def)
  from spending_is_announced [OF reachable_sandbox_at _ _ this] run show ?thesis
    by (auto simp: sandbox_guarded)
qed

end
