(* ===== verification/Anchor_Tests.thy ===== *)
theory Anchor_Tests
  imports Anchor_Sandbox
begin

text \<open>
  The integration tests of \<open>tests/integration\<close>, run on the model of the contract.  A test is a
  computation over the environment: a client call that must succeed (\<open>unwrap\<close>) or fail
  (\<open>unwrap_err\<close>), a move of the ledger number, an assertion.  Calls are made with all
  authorisations mocked and are committed or reverted by the host.  An expected error is compared by
  its code.  The tests run in the \<open>dev\<close> profile; the host is the one of \<open>Anchor_Sandbox\<close>, whose
  Drip List accepts every call like \<open>MockDripList\<close>.
\<close>

type_synonym 'a test = "(token_ledger Env, unit, 'a) comp"

abbreviation test_host :: "token_ledger Host" where
  "test_host \<equiv> sandbox_host Dev"

definition client_call :: "(token_ledger, 'a) contract \<Rightarrow> (token_ledger, 'a) contract" where
  "client_call m e = host_call m (e\<lparr>auths := (\<lambda>_. True)\<rparr>)"

definition unwrap_call :: "(token_ledger, 'a) contract \<Rightarrow> 'a test" where
  "unwrap_call m e = (case client_call m e of
       (Ok a, e') \<Rightarrow> (Ok a, e') | (Err _, e') \<Rightarrow> (Panic ''unwrap'', e') | (Panic msg, e') \<Rightarrow> (Panic msg, e'))"

definition unwrap_err :: "(token_ledger, 'a) contract \<Rightarrow> ContractError test" where
  "unwrap_err m e = (case client_call m e of
       (Err x, e') \<Rightarrow> (Ok x, e') | (Ok _, e') \<Rightarrow> (Panic ''unwrap_err'', e') | (Panic msg, e') \<Rightarrow> (Panic msg, e'))"

definition set_sequence_number :: "u32 \<Rightarrow> unit test" where
  "set_sequence_number l = modify_c (\<lambda>e. e\<lparr>sequence := l\<rparr>)"

definition assert_c :: "bool \<Rightarrow> unit test" where
  "assert_c b = (if b then skip_c else panic_c ''assertion failed'')"

text \<open>\<open>setup\<close>: deploy, initialise with the minimum stake, mint to the contract.\<close>

definition setup_env :: "token_ledger Env" where
  "setup_env =
     (let e = snd (client_call (initialize ''ADMIN'' ''XLM'' 10000000) (deployed 0 ''ANCHOR'' (\<lambda>_. 0)))
      in e\<lparr>world := (world e)(''ANCHOR'' := 500000000)\<rparr>)"

definition passes :: "unit test \<Rightarrow> bool" where
  "passes t \<longleftrightarrow> fst (t setup_env) = Ok ()"

abbreviation DRIP_LIST :: Address where "DRIP_LIST \<equiv> ''DRIPS''"

section \<open>Task provisioning\<close>

definition provision_task_stores_all_fields :: bool where
  "provision_task_stores_all_fields \<longleftrightarrow> passes (
     bind_c (unwrap_call (register_keeper ''KEEPER'' 10000000)) (\<lambda>_.
     bind_c (unwrap_call (provision_task test_host DRIP_LIST 100 5000000 ''KEEPER'')) (\<lambda>tid.
     bind_c (unwrap_call (get_task tid)) (\<lambda>task.
     bind_c (assert_c (task_id task = tid)) (\<lambda>_.
     bind_c (assert_c (target_drip_list task = DRIP_LIST)) (\<lambda>_.
     bind_c (assert_c (execution_interval_ledgers task = 100)) (\<lambda>_.
     bind_c (assert_c (micro_reward_per_run task = 5000000)) (\<lambda>_.
     bind_c (assert_c (designated_keeper task = ''KEEPER'')) (\<lambda>_.
     bind_c (gets_c sequence) (\<lambda>current.
     assert_c (next_allowed_execution task = current + 100)))))))))))"

definition provision_task_rejects_zero_interval :: bool where
  "provision_task_rejects_zero_interval \<longleftrightarrow> passes (
     bind_c (unwrap_call (register_keeper ''KEEPER'' 10000000)) (\<lambda>_.
     bind_c (unwrap_err (provision_task test_host DRIP_LIST 0 5000000 ''KEEPER'')) (\<lambda>err.
     assert_c (error_code err = 4))))"

definition provision_task_rejects_zero_reward :: bool where
  "provision_task_rejects_zero_reward \<longleftrightarrow> passes (
     bind_c (unwrap_call (register_keeper ''KEEPER'' 10000000)) (\<lambda>_.
     bind_c (unwrap_err (provision_task test_host DRIP_LIST 100 0 ''KEEPER'')) (\<lambda>err.
     assert_c (error_code err = 5))))"

definition provision_task_rejects_unregistered_keeper :: bool where
  "provision_task_rejects_unregistered_keeper \<longleftrightarrow> passes (
     bind_c (unwrap_err (provision_task test_host DRIP_LIST 100 5000000 ''UNREGISTERED'')) (\<lambda>err.
     assert_c (error_code err = 3)))"

definition get_task_returns_not_found_for_unknown_id :: bool where
  "get_task_returns_not_found_for_unknown_id \<longleftrightarrow> passes (
     bind_c (unwrap_err (get_task (replicate 32 0xde))) (\<lambda>err. assert_c (error_code err = 8)))"

section \<open>Designated execution\<close>

definition designated_keeper_executes_and_state_updates :: bool where
  "designated_keeper_executes_and_state_updates \<longleftrightarrow> passes (
     bind_c (unwrap_call (register_keeper ''KEEPER'' 10000000)) (\<lambda>_.
     bind_c (unwrap_call (provision_task test_host DRIP_LIST 100 5000000 ''KEEPER'')) (\<lambda>tid.
     bind_c (unwrap_call (get_task tid)) (\<lambda>task_before.
     let target_ledger = next_allowed_execution task_before in
     bind_c (set_sequence_number target_ledger) (\<lambda>_.
     bind_c (unwrap_call (execute_drip_split test_host tid ''KEEPER'')) (\<lambda>_.
     bind_c (unwrap_call (get_task tid)) (\<lambda>task_after.
     bind_c (assert_c (next_allowed_execution task_after = target_ledger + 100)) (\<lambda>_.
     bind_c (unwrap_call (get_keeper ''KEEPER'')) (\<lambda>keeper_rec.
     bind_c (assert_c (total_executions keeper_rec = 1)) (\<lambda>_.
     assert_c (last_execution_ledger keeper_rec = target_ledger)))))))))))"

definition execution_before_window_is_rejected :: bool where
  "execution_before_window_is_rejected \<longleftrightarrow> passes (
     bind_c (unwrap_call (register_keeper ''KEEPER'' 10000000)) (\<lambda>_.
     bind_c (unwrap_call (provision_task test_host DRIP_LIST 100 5000000 ''KEEPER'')) (\<lambda>tid.
     bind_c (unwrap_err (execute_drip_split test_host tid ''KEEPER'')) (\<lambda>err.
     assert_c (error_code err = 9)))))"

definition wrong_caller_in_designated_window_is_rejected :: bool where
  "wrong_caller_in_designated_window_is_rejected \<longleftrightarrow> passes (
     bind_c (unwrap_call (register_keeper ''DESIGNATED'' 10000000)) (\<lambda>_.
     bind_c (unwrap_call (register_keeper ''OTHER'' 10000000)) (\<lambda>_.
     bind_c (unwrap_call (provision_task test_host DRIP_LIST 100 5000000 ''DESIGNATED'')) (\<lambda>tid.
     bind_c (unwrap_call (get_task tid)) (\<lambda>task.
     bind_c (set_sequence_number (next_allowed_execution task)) (\<lambda>_.
     bind_c (unwrap_err (execute_drip_split test_host tid ''OTHER'')) (\<lambda>err.
     assert_c (error_code err = 10))))))))"

section \<open>Grace period\<close>

definition secondary_keeper_executes_in_grace_and_schedule_advances :: bool where
  "secondary_keeper_executes_in_grace_and_schedule_advances \<longleftrightarrow> passes (
     bind_c (unwrap_call (register_keeper ''DESIGNATED'' 50000000)) (\<lambda>_.
     bind_c (unwrap_call (register_keeper ''SECONDARY'' 50000000)) (\<lambda>_.
     bind_c (unwrap_call (provision_task test_host DRIP_LIST 200 5000000 ''DESIGNATED'')) (\<lambda>tid.
     bind_c (unwrap_call (get_task tid)) (\<lambda>task_before.
     let grace_ledger = next_allowed_execution task_before + 30 in
     bind_c (set_sequence_number grace_ledger) (\<lambda>_.
     bind_c (unwrap_call (execute_drip_split test_host tid ''SECONDARY'')) (\<lambda>_.
     bind_c (unwrap_call (get_task tid)) (\<lambda>task_after.
     bind_c (assert_c (next_allowed_execution task_after = grace_ledger + 200)) (\<lambda>_.
     bind_c (unwrap_call (get_keeper ''SECONDARY'')) (\<lambda>secondary_rec.
     bind_c (assert_c (total_executions secondary_rec = 1)) (\<lambda>_.
     assert_c (last_execution_ledger secondary_rec = grace_ledger))))))))))))"

definition designated_keeper_blocked_during_grace :: bool where
  "designated_keeper_blocked_during_grace \<longleftrightarrow> passes (
     bind_c (unwrap_call (register_keeper ''KEEPER'' 50000000)) (\<lambda>_.
     bind_c (unwrap_call (provision_task test_host DRIP_LIST 100 5000000 ''KEEPER'')) (\<lambda>tid.
     bind_c (unwrap_call (get_task tid)) (\<lambda>task.
     bind_c (set_sequence_number (next_allowed_execution task + 10)) (\<lambda>_.
     bind_c (unwrap_err (execute_drip_split test_host tid ''KEEPER'')) (\<lambda>err.
     assert_c (error_code err = 13)))))))"

definition unregistered_caller_blocked_during_grace :: bool where
  "unregistered_caller_blocked_during_grace \<longleftrightarrow> passes (
     bind_c (unwrap_call (register_keeper ''DESIGNATED'' 50000000)) (\<lambda>_.
     bind_c (unwrap_call (provision_task test_host DRIP_LIST 100 5000000 ''DESIGNATED'')) (\<lambda>tid.
     bind_c (unwrap_call (get_task tid)) (\<lambda>task.
     bind_c (set_sequence_number (next_allowed_execution task + 5)) (\<lambda>_.
     bind_c (unwrap_err (execute_drip_split test_host tid ''STRANGER'')) (\<lambda>err.
     assert_c (error_code err = 15)))))))"

section \<open>Post-grace execution\<close>

definition post_grace_execution_succeeds_with_no_slash :: bool where
  "post_grace_execution_succeeds_with_no_slash \<longleftrightarrow> passes (
     let initial_stake = 50000000 in
     bind_c (unwrap_call (register_keeper ''DESIGNATED'' initial_stake)) (\<lambda>_.
     bind_c (unwrap_call (register_keeper ''EXECUTOR'' initial_stake)) (\<lambda>_.
     bind_c (unwrap_call (provision_task test_host DRIP_LIST 100 5000000 ''DESIGNATED'')) (\<lambda>tid.
     bind_c (unwrap_call (get_task tid)) (\<lambda>task.
     let post_grace_ledger = next_allowed_execution task + 80 in
     bind_c (set_sequence_number post_grace_ledger) (\<lambda>_.
     bind_c (unwrap_call (execute_drip_split test_host tid ''EXECUTOR'')) (\<lambda>_.
     bind_c (unwrap_call (get_keeper ''DESIGNATED'')) (\<lambda>designated_rec.
     bind_c (assert_c (stake_amount designated_rec = initial_stake)) (\<lambda>_.
     bind_c (unwrap_call (get_task tid)) (\<lambda>task_after.
     assert_c (next_allowed_execution task_after = post_grace_ledger + 100)))))))))))"

definition designated_keeper_can_execute_post_grace :: bool where
  "designated_keeper_can_execute_post_grace \<longleftrightarrow> passes (
     bind_c (unwrap_call (register_keeper ''KEEPER'' 50000000)) (\<lambda>_.
     bind_c (unwrap_call (provision_task test_host DRIP_LIST 100 5000000 ''KEEPER'')) (\<lambda>tid.
     bind_c (unwrap_call (get_task tid)) (\<lambda>task.
     bind_c (set_sequence_number (next_allowed_execution task + 51)) (\<lambda>_.
     bind_c (unwrap_call (execute_drip_split test_host tid ''KEEPER'')) (\<lambda>_. skip_c))))))"

definition unregistered_caller_blocked_post_grace :: bool where
  "unregistered_caller_blocked_post_grace \<longleftrightarrow> passes (
     bind_c (unwrap_call (register_keeper ''DESIGNATED'' 50000000)) (\<lambda>_.
     bind_c (unwrap_call (provision_task test_host DRIP_LIST 100 5000000 ''DESIGNATED'')) (\<lambda>tid.
     bind_c (unwrap_call (get_task tid)) (\<lambda>task.
     bind_c (set_sequence_number (next_allowed_execution task + 60)) (\<lambda>_.
     bind_c (unwrap_err (execute_drip_split test_host tid ''STRANGER'')) (\<lambda>err.
     assert_c (error_code err = 10)))))))"

section \<open>Slashing\<close>

definition secondary_execution_slashes_designated_keeper_by_5_percent :: bool where
  "secondary_execution_slashes_designated_keeper_by_5_percent \<longleftrightarrow> passes (
     let initial_stake = 100000000 in
     bind_c (unwrap_call (register_keeper ''DESIGNATED'' initial_stake)) (\<lambda>_.
     bind_c (unwrap_call (register_keeper ''SECONDARY'' initial_stake)) (\<lambda>_.
     bind_c (unwrap_call (provision_task test_host DRIP_LIST 100 5000000 ''DESIGNATED'')) (\<lambda>tid.
     bind_c (unwrap_call (get_task tid)) (\<lambda>task.
     bind_c (set_sequence_number (next_allowed_execution task + 25)) (\<lambda>_.
     bind_c (unwrap_call (execute_drip_split test_host tid ''SECONDARY'')) (\<lambda>_.
     let expected_slash = sint initial_stake * 5 sdiv 100;
         expected_new_stake = sint initial_stake - expected_slash in
     bind_c (unwrap_call (get_keeper ''DESIGNATED'')) (\<lambda>designated_rec.
     assert_c (sint (stake_amount designated_rec) = expected_new_stake)))))))))"

definition slash_never_produces_negative_stake :: bool where
  "slash_never_produces_negative_stake \<longleftrightarrow> passes (
     bind_c (unwrap_call (register_keeper ''DESIGNATED'' 10000000)) (\<lambda>_.
     bind_c (unwrap_call (register_keeper ''SECONDARY'' 10000000)) (\<lambda>_.
     bind_c (unwrap_call (provision_task test_host DRIP_LIST 100 5000000 ''DESIGNATED'')) (\<lambda>tid.
     bind_c (unwrap_call (get_task tid)) (\<lambda>task.
     bind_c (set_sequence_number (next_allowed_execution task + 10)) (\<lambda>_.
     bind_c (unwrap_call (execute_drip_split test_host tid ''SECONDARY'')) (\<lambda>_.
     bind_c (unwrap_call (get_keeper ''DESIGNATED'')) (\<lambda>designated_rec.
     assert_c (0 \<le> sint (stake_amount designated_rec))))))))))"

definition keeper_marked_ineligible_after_stake_falls_below_minimum :: bool where
  "keeper_marked_ineligible_after_stake_falls_below_minimum \<longleftrightarrow> passes (
     let initial_stake = 10000001 in
     bind_c (unwrap_call (register_keeper ''DESIGNATED'' initial_stake)) (\<lambda>_.
     bind_c (unwrap_call (register_keeper ''SECONDARY'' 10000000)) (\<lambda>_.
     bind_c (unwrap_call (provision_task test_host DRIP_LIST 100 5000000 ''DESIGNATED'')) (\<lambda>tid.
     bind_c (unwrap_call (get_task tid)) (\<lambda>task.
     bind_c (set_sequence_number (next_allowed_execution task + 1)) (\<lambda>_.
     bind_c (unwrap_call (execute_drip_split test_host tid ''SECONDARY'')) (\<lambda>_.
     bind_c (unwrap_call (get_keeper ''DESIGNATED'')) (\<lambda>designated_rec.
     let new_stake = sint initial_stake - (sint initial_stake * 5 sdiv 100) in
     if new_stake < 10000000 then assert_c (ineligible designated_rec) else skip_c))))))))"

definition secondary_keeper_receives_micro_reward :: bool where
  "secondary_keeper_receives_micro_reward \<longleftrightarrow> passes (
     bind_c (unwrap_call (register_keeper ''DESIGNATED'' 100000000)) (\<lambda>_.
     bind_c (unwrap_call (register_keeper ''SECONDARY'' 100000000)) (\<lambda>_.
     bind_c (unwrap_call (provision_task test_host DRIP_LIST 100 5000000 ''DESIGNATED'')) (\<lambda>tid.
     bind_c (unwrap_call (get_task tid)) (\<lambda>task.
     bind_c (set_sequence_number (next_allowed_execution task + 20)) (\<lambda>_.
     bind_c (unwrap_call (execute_drip_split test_host tid ''SECONDARY'')) (\<lambda>_.
     bind_c (unwrap_call (get_keeper ''SECONDARY'')) (\<lambda>secondary_rec.
     assert_c (total_executions secondary_rec = 1)))))))))"

section \<open>Evaluation\<close>

lemma client_call_eq:
  "unwrap_call m e = (case m (e\<lparr>auths := \<lambda>_. True\<rparr>) of
     (Ok a, e') \<Rightarrow> (Ok a, e') | (Err _, e') \<Rightarrow> (Panic ''unwrap'', e\<lparr>auths := \<lambda>_. True\<rparr>)
     | (Panic msg, e') \<Rightarrow> (Panic msg, e\<lparr>auths := \<lambda>_. True\<rparr>))"
  "unwrap_err m e = (case m (e\<lparr>auths := \<lambda>_. True\<rparr>) of
     (Err x, e') \<Rightarrow> (Ok x, e\<lparr>auths := \<lambda>_. True\<rparr>) | (Ok _, e') \<Rightarrow> (Panic ''unwrap_err'', e')
     | (Panic msg, e') \<Rightarrow> (Panic msg, e\<lparr>auths := \<lambda>_. True\<rparr>))"
  by (auto simp: unwrap_call_def unwrap_err_def client_call_def host_call_def split: prod.splits outcome.splits)

lemma assert_c_simps [comp_simps]: "assert_c True = skip_c" "assert_c False e = (Panic ''assertion failed'', e)"
  by (simp_all add: assert_c_def comp_simps)

lemma setup_views [simp]:
  "storage_ok setup_env" "keeper_at setup_env = Map.empty" "task_at setup_env = Map.empty"
  "native_token_of setup_env = Some ''XLM''" "admin_of setup_env = Some ''ADMIN''"
  "min_stake_of setup_env = Some 10000000" "treasury_of setup_env = 0" "task_counter_of setup_env = 0"
  "sequence setup_env = 0" "self_address setup_env = ''ANCHOR''"
  "world setup_env = (\<lambda>_. 0)(''ANCHOR'' := 500000000)"
  by (simp_all add: setup_env_def client_call_def host_call_def initialize_eq storage_ok_put Let_def fun_eq_iff)

lemmas call_eval =
  client_call_eq(1) [of "register_keeper a st" for a st] client_call_eq(1) [of "get_keeper a" for a]
  client_call_eq(1) [of "provision_task h a i r d" for h a i r d] client_call_eq(1) [of "get_task i" for i]
  client_call_eq(2) [of "provision_task h a i r d" for h a i r d] client_call_eq(2) [of "get_task i" for i]

lemmas test_eval = passes_def call_eval comp_simps register_keeper_eq provision_task_eq get_task_eq
  get_keeper_eq storage_ok_put registry.get_put task_table.get_put new_keeper_def MIN_KEEPER_STAKE_def
  provisioned_def uadd_def Let_def set_sequence_number_def

lemma provisioning_tests:
  "provision_task_stores_all_fields" "provision_task_rejects_zero_interval" "provision_task_rejects_zero_reward"
  "provision_task_rejects_unregistered_keeper" "get_task_returns_not_found_for_unknown_id"
  by (simp_all add: provision_task_stores_all_fields_def provision_task_rejects_zero_interval_def
      provision_task_rejects_zero_reward_def provision_task_rejects_unregistered_keeper_def
      get_task_returns_not_found_for_unknown_id_def test_eval)
section \<open>Executions\<close>

text \<open>A refused execution, and what follows an admitted one in an environment funded by the set-up.\<close>

lemma refused_then:
  assumes "storage_ok e" and "task_at e tid = Some t"
    and "\<not> admitted (region_of (next_allowed_execution t) (sequence e))
           (caller = designated_keeper t) (keeper_at e caller \<noteq> None)"
    and "fst (f (refusal (region_of (next_allowed_execution t) (sequence e)) (caller = designated_keeper t))
           (e\<lparr>auths := \<lambda>_. True\<rparr>)) = Ok ()"
  shows "fst (bind_c (unwrap_err (execute_drip_split h tid caller)) f e) = Ok ()"
  using assms refused_eq [of "e\<lparr>auths := \<lambda>_. True\<rparr>" tid t caller h]
  by (simp add: client_call_eq comp_simps bind_c_def)

definition funded :: "token_ledger Env \<Rightarrow> bool" where
  "funded e \<longleftrightarrow> storage_ok e \<and> native_token_of e = Some ''XLM'' \<and> self_address e = ''ANCHOR'' \<and>
     treasury_of e = 0 \<and> world e = (\<lambda>_. 0)(''ANCHOR'' := 500000000)"

lemma funded_pays:
  assumes "funded e" and "caller \<noteq> ''ANCHOR''"
  obtains w where "paid (sandbox_host p) (e\<lparr>world := world e\<rparr>) caller 5000000 w"
    and "\<And>r. 0 \<le> r \<Longrightarrow> r \<le> 400000000 \<Longrightarrow>
      \<exists>w'. paid (sandbox_host p) (e\<lparr>world := w\<rparr>) caller (word_of_int r) w'"
proof -
  let ?w = "(\<lambda>_. 0 :: i128)(''ANCHOR'' := 495000000, caller := 5000000)"
  have "paid (sandbox_host p) (e\<lparr>world := world e\<rparr>) caller 5000000 ?w"
    using assms by (auto simp: paid_def funded_def ledger_transfer_def Let_def i128_in_range_def fun_eq_iff)
  moreover have "\<exists>w'. paid (sandbox_host p) (e\<lparr>world := ?w\<rparr>) caller (word_of_int r) w'"
    if r: "0 \<le> r" "r \<le> 400000000" for r
  proof -
    have "sint (word_of_int r :: i128) = r"
      using r by (intro sint_word_of_i128) (simp add: i128_in_range_def)
    with assms r show ?thesis
      by (auto simp: paid_def funded_def ledger_transfer_def Let_def i128_in_range_def)
  qed
  ultimately show ?thesis by (rule that)
qed

lemma executed_then:
  assumes funded: "funded e" and t: "task_at e tid = Some t" and k: "keeper_at e caller = Some k"
    and fresh: "total_executions k = 0" and caller: "caller \<noteq> ''ANCHOR''"
    and reward: "micro_reward_per_run t = 5000000"
    and adm: "admitted (region_of (next_allowed_execution t) (sequence e)) (caller = designated_keeper t) True"
    and n: "uadd Dev (sequence e) (execution_interval_ledgers t) = Some n"
    and d: "keeper_at e (designated_keeper t) = Some d" "0 < sint (stake_amount d)"
      "sint (stake_amount d) \<le> 1000000000"
    and cont: "\<And>e'. storage_ok e' \<Longrightarrow> sequence e' = sequence e \<Longrightarrow>
      task_at e' = (task_at e)(tid \<mapsto> t\<lparr>next_allowed_execution := n\<rparr>) \<Longrightarrow>
      keeper_at e' = (if region_of (next_allowed_execution t) (sequence e) = GracePeriod
        then (keeper_at e)(designated_keeper t \<mapsto> slashed_keeper d) else keeper_at e)
          (caller \<mapsto> k\<lparr>total_executions := 1, last_execution_ledger := sequence e\<rparr>) \<Longrightarrow>
      fst (f () e') = Ok ()"
  shows "fst (bind_c (unwrap_call (execute_drip_split test_host tid caller)) f e) = Ok ()"
proof -
  let ?e = "e\<lparr>auths := \<lambda>_. True\<rparr>"
  have fe: "funded ?e" and ok: "storage_ok ?e" using funded by (simp_all add: funded_def)
  obtain w where pay: "paid test_host (?e\<lparr>world := world ?e\<rparr>) caller 5000000 w"
    and more: "\<And>r. 0 \<le> r \<Longrightarrow> r \<le> 400000000 \<Longrightarrow>
      \<exists>w'. paid test_host (?e\<lparr>world := w\<rparr>) caller (word_of_int r) w'"
    using funded_pays [OF fe caller] by blast
  have sec: "0 \<le> secondary_reward_of (sint (stake_amount d))"
      "secondary_reward_of (sint (stake_amount d)) \<le> 400000000"
      "0 \<le> treasury_portion_of (sint (stake_amount d))"
      "treasury_portion_of (sint (stake_amount d)) \<le> 400000000"
    using d slash_of_bounds [of "sint (stake_amount d)"]
    by (auto simp: secondary_reward_of_floor treasury_portion_of_def)
  have slash: "slash_payable test_host ?e (designated_keeper t) caller w"
    using d sec more funded by (auto simp: slash_payable_def slash_in_range_def i128_in_range_def funded_def)
  have one: "uadd (profile test_host) (total_executions k) 1 = Some 1" using fresh by (simp add: uadd_def)
  obtain e' where run: "execute_drip_split test_host tid caller ?e = (Ok (), e')"
    using execute_drip_split_returns [OF ok, of tid t caller test_host "world e" w n k 1] t k adm n one pay reward slash
    by auto
  from ok run show ?thesis
  proof (rule execute_drip_split_views)
    fix t' n' k' k'' m
    assume v: "task_at ?e tid = Some t'" "uadd (profile test_host) (sequence ?e) (execution_interval_ledgers t') = Some n'"
      "keeper_at ?e caller = Some k'" "counted test_host (sequence ?e) k' k''" "storage_ok e'"
      "if region_of (next_allowed_execution t') (sequence ?e) = GracePeriod
       then grace_effect test_host tid t' caller ?e m e' else plain_effect tid t' caller ?e m e'"
      "task_at e' = (task_at ?e)(tid \<mapsto> t'\<lparr>next_allowed_execution := n'\<rparr>)" "keeper_at e' = m(caller \<mapsto> k'')"
      "sequence e' = sequence ?e"
    with t k n one have eqs: "t' = t" "n' = n" "k' = k" "k'' = k\<lparr>total_executions := 1, last_execution_ledger := sequence e\<rparr>"
      by (auto simp: counted_def)
    have "m = (if region_of (next_allowed_execution t) (sequence e) = GracePeriod
        then (keeper_at e)(designated_keeper t \<mapsto> slashed_keeper d) else keeper_at e)"
      using v(6) d(1) unfolding eqs by (auto simp: grace_effect_def plain_effect_def slash_only_def split: if_splits)
    with v eqs have "fst (f () e') = Ok ()" by (intro cont) simp_all
    with run show ?thesis by (simp add: client_call_eq bind_c_def)
  qed
qed
lemma funded_frames [simp]:
  "funded setup_env" "funded (e\<lparr>sequence := l\<rparr>) = funded e" "funded (e\<lparr>auths := a\<rparr>) = funded e"
  "funded (e\<lparr>events := x\<rparr>) = funded e"
  by (simp_all add: funded_def)

lemma funded_put:
  "funded e \<Longrightarrow> funded (put_keeper k e)" "funded e \<Longrightarrow> funded (put_task t e)"
  "funded e \<Longrightarrow> funded (put_instance TaskCounter (ScU32 c) e)"
  by (simp_all add: funded_def storage_ok_put)
lemmas refusal_eval = test_eval region_of_def

lemmas execution_eval = test_eval region_of_def funded_put slashed_keeper_def slash_of_floor sdiv_pos_eq

lemma execution_before_window_is_rejected_test: "execution_before_window_is_rejected"
  by (simp add: execution_before_window_is_rejected_def test_eval, rule refused_then, (simp add: refusal_eval)+)

lemma wrong_caller_in_designated_window_is_rejected_test: "wrong_caller_in_designated_window_is_rejected"
  by (simp add: wrong_caller_in_designated_window_is_rejected_def test_eval, rule refused_then, (simp add: refusal_eval)+)

lemma designated_keeper_blocked_during_grace_test: "designated_keeper_blocked_during_grace"
  by (simp add: designated_keeper_blocked_during_grace_def test_eval, rule refused_then, (simp add: refusal_eval)+)

lemma unregistered_caller_blocked_during_grace_test: "unregistered_caller_blocked_during_grace"
  by (simp add: unregistered_caller_blocked_during_grace_def test_eval, rule refused_then, (simp add: refusal_eval)+)

lemma unregistered_caller_blocked_post_grace_test: "unregistered_caller_blocked_post_grace"
  by (simp add: unregistered_caller_blocked_post_grace_def test_eval, rule refused_then, (simp add: refusal_eval)+)

lemma designated_keeper_executes_and_state_updates_test: "designated_keeper_executes_and_state_updates"
  by (simp add: designated_keeper_executes_and_state_updates_def test_eval, rule executed_then, (simp add: execution_eval)+)

lemma post_grace_execution_succeeds_with_no_slash_test: "post_grace_execution_succeeds_with_no_slash"
  by (simp add: post_grace_execution_succeeds_with_no_slash_def test_eval, rule executed_then, (simp add: execution_eval)+)

lemma designated_keeper_can_execute_post_grace_test: "designated_keeper_can_execute_post_grace"
  by (simp add: designated_keeper_can_execute_post_grace_def test_eval, rule executed_then, (simp add: execution_eval)+)

lemma secondary_keeper_executes_in_grace_and_schedule_advances_test: "secondary_keeper_executes_in_grace_and_schedule_advances"
  by (simp add: secondary_keeper_executes_in_grace_and_schedule_advances_def test_eval, rule executed_then, (simp add: execution_eval)+)

lemma secondary_execution_slashes_designated_keeper_by_5_percent_test: "secondary_execution_slashes_designated_keeper_by_5_percent"
  by (simp add: secondary_execution_slashes_designated_keeper_by_5_percent_def test_eval, rule executed_then, (simp add: execution_eval)+)

lemma slash_never_produces_negative_stake_test: "slash_never_produces_negative_stake"
  by (simp add: slash_never_produces_negative_stake_def test_eval, rule executed_then, (simp add: execution_eval)+)

lemma keeper_marked_ineligible_after_stake_falls_below_minimum_test: "keeper_marked_ineligible_after_stake_falls_below_minimum"
  by (simp add: keeper_marked_ineligible_after_stake_falls_below_minimum_def test_eval, rule executed_then, (simp add: execution_eval)+)

lemma secondary_keeper_receives_micro_reward_test: "secondary_keeper_receives_micro_reward"
  by (simp add: secondary_keeper_receives_micro_reward_def test_eval, rule executed_then, (simp add: execution_eval)+)

text \<open>All of them, in the order of the files.\<close>

definition integration_tests :: "bool list" where
  "integration_tests =
     [designated_keeper_executes_and_state_updates, execution_before_window_is_rejected,
      wrong_caller_in_designated_window_is_rejected,
      secondary_keeper_executes_in_grace_and_schedule_advances, designated_keeper_blocked_during_grace,
      unregistered_caller_blocked_during_grace,
      post_grace_execution_succeeds_with_no_slash, designated_keeper_can_execute_post_grace,
      unregistered_caller_blocked_post_grace,
      secondary_execution_slashes_designated_keeper_by_5_percent, slash_never_produces_negative_stake,
      keeper_marked_ineligible_after_stake_falls_below_minimum, secondary_keeper_receives_micro_reward,
      provision_task_stores_all_fields, provision_task_rejects_zero_interval,
      provision_task_rejects_zero_reward, provision_task_rejects_unregistered_keeper,
      get_task_returns_not_found_for_unknown_id]"

lemmas integration_test_facts = provisioning_tests
  execution_before_window_is_rejected_test
  wrong_caller_in_designated_window_is_rejected_test
  designated_keeper_blocked_during_grace_test
  unregistered_caller_blocked_during_grace_test
  unregistered_caller_blocked_post_grace_test
  designated_keeper_executes_and_state_updates_test
  post_grace_execution_succeeds_with_no_slash_test
  designated_keeper_can_execute_post_grace_test
  secondary_keeper_executes_in_grace_and_schedule_advances_test
  secondary_execution_slashes_designated_keeper_by_5_percent_test
  slash_never_produces_negative_stake_test
  keeper_marked_ineligible_after_stake_falls_below_minimum_test
  secondary_keeper_receives_micro_reward_test

lemma integration_tests_hold: "list_all (\<lambda>test. test) integration_tests"
  by (simp add: integration_tests_def integration_test_facts)

end
