(* ===== verification/Engine_Base.thy ===== *)
theory Engine_Base
  imports Chronos_Types "HOL-Library.FSet"
begin

text \<open>
  The ground the engine daemon \<open>the-engine\<close> stands on: its error taxonomy (\<open>errors.rs\<close>), the
  values that travel between its components, the shared mutable state behind its \<open>Arc\<close> handles,
  and the platform it runs on.  The HTTP client, JSON values, hex codec, signature scheme and clocks
  are third-party code: they are the fields of the parameter record \<open>Platform\<close> and act on an opaque
  network state \<open>'n\<close>.

  Every \<open>tracing\<close> macro appends to the log of the state.  An await point that lies under a
  \<open>tokio::time::timeout\<close> whose deadline passes drops its future: the primitive ends with the
  reserved panic \<open>CANCELLED\<close>, which only \<open>timeout_c\<close> intercepts, so that exactly the effects up to
  the interrupted await point remain.
\<close>

section \<open>Errors\<close>

text \<open>All durations of the engine are whole seconds, made by \<open>Duration::from_secs\<close>.\<close>

type_synonym Duration = u64

datatype ErrorKind = OtherKind | InvalidData | BrokenPipe

datatype TransientError =
    Io ErrorKind string
  | ConnectionTimeout Duration
  | ConnectionReset
  | RpcTimeout

datatype NonTransientError =
    ContractRejection string
  | ConfirmationTimeout Duration
  | KeypairDecode string
  | ConfigInvalid string string

datatype EngineError =
    Transient TransientError
  | NonTransient NonTransientError

fun is_transient :: "EngineError \<Rightarrow> bool" where
  "is_transient (Transient _) = True"
| "is_transient (NonTransient _) = False"

text \<open>
  The texts of the \<open>#[error]\<close> attributes.  A custom I/O error displays as its message, a
  \<open>Duration\<close> of whole seconds as \<open>5s\<close> and the zero one as \<open>0ns\<close>; the dash is U+2014 in UTF-8.
\<close>

definition EM_DASH :: string where "EM_DASH = [CHR 0xE2, CHR 0x80, CHR 0x94]"

definition duration_debug :: "Duration \<Rightarrow> string" where
  "duration_debug d = (if d = 0 then ''0ns'' else decimal (unat d) @ ''s'')"

fun display_transient :: "TransientError \<Rightarrow> string" where
  "display_transient (Io _ text) = ''I/O error: '' @ text"
| "display_transient (ConnectionTimeout elapsed) = ''connection timeout after '' @ duration_debug elapsed"
| "display_transient ConnectionReset = ''connection reset by peer''"
| "display_transient RpcTimeout = ''RPC response timeout''"

fun display_non_transient :: "NonTransientError \<Rightarrow> string" where
  "display_non_transient (ContractRejection reason) = ''contract rejected execution: '' @ reason"
| "display_non_transient (ConfirmationTimeout elapsed) =
     ''confirmation timeout after '' @ duration_debug elapsed"
| "display_non_transient (KeypairDecode reason) = ''keypair decode error: '' @ reason"
| "display_non_transient (ConfigInvalid field reason) =
     ''config validation failed: '' @ field @ '' '' @ EM_DASH @ '' '' @ reason"

fun display_error :: "EngineError \<Rightarrow> string" where
  "display_error (Transient e) = ''transient: '' @ display_transient e"
| "display_error (NonTransient e) = ''non-transient: '' @ display_non_transient e"

section \<open>Values\<close>

type_synonym TxHash = string

record TxResult =
  hash :: TxHash
  ledger :: u32
  success :: bool
  error_detail :: "string option"

record RemoteTask =
  task_id_hex :: string
  rt_target_drip_list :: string
  rt_execution_interval_ledgers :: u32
  rt_next_allowed_execution :: u32
  rt_micro_reward_per_run :: i128
  rt_designated_keeper :: string

datatype ExecutionRole = Designated | Secondary | PostGraceRole

datatype LedgerEvent = Advance u32

datatype LogEvent =
    RpcCall string
  | RpcHttpError
  | TreatedAsTransient NonTransientError
  | MaxRetriesIsZero
  | ExecutionConfirmed string string u32 TxHash ExecutionRole
  | FailedOnChain string TxHash "string option"
  | ConfirmationTimedOut string TxHash
  | ConfirmationError string EngineError
  | MaxRetriesReached string TransientError nat
  | Retrying string TransientError nat Duration
  | NonTransientDropped string NonTransientError
  | ConnectivityRestored u32
  | LedgerAdvanceDetected u32
  | TransientRpcError u32 Duration
  | LedgerPollError TransientError u32 Duration
  | Lagged u64
  | ChannelClosed
  | TaskQueryError u32 EngineError
  | TaskQueryTimedOut u32 Duration
  | DiscoveredTasks u32 nat
  | DispatchingAsSecondary string u32 string
  | MissedExecution string u32 u32 u32
  | ConfigurationLoaded string string u16
  | ConfigurationRejected string
  | InvalidSecretSeed string
  | KeeperIdentityResolved string
  | EngineStarted
  | HealthListening u16 string
  | ShutdownReceived
  | EngineStopped

section \<open>State and platform\<close>

record 'n Engine =
  in_flight :: "TaskId fset"
  last_confirmed_ts :: i64
  last_known_ledger :: u32
  task_cache :: "string \<rightharpoonup> RemoteTask"
  broadcasts :: "LedgerEvent list"
  log :: "LogEvent list"
  deadline :: "nat option"
  net :: 'n

record http_error =
  is_timeout :: bool
  is_connect :: bool
  error_text :: string

text \<open>A request fails to be sent, or is answered with a status and a body that may not be JSON.\<close>

datatype 'v http_reply = SendError http_error | Response bool "string + 'v"

record ('n, 'v) Platform =
  build :: cargo_profile
  post :: "string \<Rightarrow> Duration \<Rightarrow> Duration \<Rightarrow> 'v \<Rightarrow> 'n \<Rightarrow> 'v http_reply \<times> 'n"
  json_object :: "(string \<times> 'v) list \<Rightarrow> 'v"
  json_string :: "string \<Rightarrow> 'v"
  json_number :: "nat \<Rightarrow> 'v"
  json_get :: "'v \<Rightarrow> string \<Rightarrow> 'v option"
  json_index :: "'v \<Rightarrow> string \<Rightarrow> 'v"
  json_as_str :: "'v \<Rightarrow> string option"
  json_as_u64 :: "'v \<Rightarrow> u64 option"
  json_text :: "'v \<Rightarrow> string"
  sleep_for :: "Duration \<Rightarrow> 'n \<Rightarrow> 'n"
  instant :: "'n \<Rightarrow> nat"
  interrupted :: "nat \<Rightarrow> 'n \<Rightarrow> 'n"
  unix_time :: "'n \<Rightarrow> u64 option"
  hex_decode :: "string \<Rightarrow> u8 list option"
  hex_encode :: "u8 list \<Rightarrow> string"
  sign :: "u8 list \<Rightarrow> string \<Rightarrow> u8 list"

type_synonym ('n, 'a) engine = "('n Engine, EngineError, 'a) comp"

abbreviation CANCELLED :: string where "CANCELLED \<equiv> ''deadline has elapsed''"
abbreviation DURATION_OVERFLOW :: string where
  "DURATION_OVERFLOW \<equiv> ''overflow when multiplying duration by scalar''"

definition log_c :: "LogEvent \<Rightarrow> ('n Engine, 'e, unit) comp" where
  "log_c ev = modify_c (\<lambda>s. s\<lparr>log := log s @ [ev]\<rparr>)"

text \<open>An await point: run the foreign operation, unless the deadline comes first.\<close>

definition await_c ::
  "('n, 'v) Platform \<Rightarrow> ('n \<Rightarrow> 'a \<times> 'n) \<Rightarrow> ('n Engine, 'e, 'a) comp" where
  "await_c p f s = (case f (net s) of (a, n) \<Rightarrow>
     (case deadline s of
        None \<Rightarrow> (Ok a, s\<lparr>net := n\<rparr>)
      | Some t \<Rightarrow>
          if instant p n \<le> t then (Ok a, s\<lparr>net := n\<rparr>)
          else (Panic CANCELLED, s\<lparr>net := interrupted p t (net s)\<rparr>)))"

definition sleep_c :: "('n, 'v) Platform \<Rightarrow> Duration \<Rightarrow> ('n Engine, 'e, unit) comp" where
  "sleep_c p d = await_c p (\<lambda>n. ((), sleep_for p d n))"

text \<open>
  \<open>tokio::time::timeout\<close>: \<^const>\<open>None\<close> when the deadline passed.  No two timeouts are nested in the
  engine, so the deadline is cleared on the way out.
\<close>

definition timeout_c ::
  "('n, 'v) Platform \<Rightarrow> Duration \<Rightarrow> ('n Engine, 'e, 'a) comp \<Rightarrow> ('n Engine, 'f, ('e + 'a) option) comp" where
  "timeout_c p d m s =
     (case m (s\<lparr>deadline := Some (instant p (net s) + unat d)\<rparr>) of
        (Ok a, s') \<Rightarrow> (Ok (Some (Inr a)), s'\<lparr>deadline := None\<rparr>)
      | (Err e, s') \<Rightarrow> (Ok (Some (Inl e)), s'\<lparr>deadline := None\<rparr>)
      | (Panic msg, s') \<Rightarrow>
          if msg = CANCELLED then (Ok None, s'\<lparr>deadline := None\<rparr>)
          else (Panic msg, s'\<lparr>deadline := None\<rparr>))"

text \<open>\<open>Duration * 2\<close> panics on overflow in every profile.\<close>

definition double_duration :: "Duration \<Rightarrow> Duration option" where
  "double_duration d = (if unat d * 2 < 2 ^ 64 then Some (d * 2) else None)"

definition next_backoff :: "Duration \<Rightarrow> Duration \<Rightarrow> Duration option" where
  "next_backoff cap d = map_option (\<lambda>x. min x cap) (double_duration d)"

lemma log_c_apply [comp_simps]: "log_c ev s = (Ok (), s\<lparr>log := log s @ [ev]\<rparr>)"
  by (simp add: log_c_def comp_simps)

lemma await_c_free [comp_simps]:
  "deadline s = None \<Longrightarrow> await_c p f s = (Ok (fst (f (net s))), s\<lparr>net := snd (f (net s))\<rparr>)"
  by (simp add: await_c_def split: prod.splits)

lemma sleep_c_free [comp_simps]:
  "deadline s = None \<Longrightarrow> sleep_c p d s = (Ok (), s\<lparr>net := sleep_for p d (net s)\<rparr>)"
  by (simp add: sleep_c_def comp_simps)

section \<open>Capped exponential backoff\<close>

text \<open>
  The waiting time doubles up to a cap.  The locale is the contract of such a schedule, for caps
  that leave room for doubling; pipeline and poller both step with \<open>next_backoff\<close>, which meets it.
\<close>

locale capped_backoff =
  fixes step :: "'d \<Rightarrow> 'd option" and secs :: "'d \<Rightarrow> nat" and cap :: nat and limit :: nat
  assumes step_below:
    "cap \<le> limit \<Longrightarrow> secs d \<le> cap \<Longrightarrow> \<exists>d'. step d = Some d' \<and> secs d' = min (secs d * 2) cap"
begin

fun after :: "nat \<Rightarrow> 'd \<Rightarrow> 'd option" where
  "after 0 d = Some d"
| "after (Suc n) d = Option.bind (step d) (after n)"

lemma capped_twice: "min (min (x * 2) c * 2 ^ n) c = min (x * 2 ^ Suc n) (c :: nat)"
proof (cases "x * 2 \<le> c")
  case False
  then have "c * 1 \<le> (x * 2) * 2 ^ n" by (intro mult_le_mono) simp_all
  then have "min (x * 2 ^ Suc n) c = c" by (simp add: min_absorb2 mult.assoc)
  moreover have "min (c * 2 ^ n) c = c" by (rule min_absorb2) simp
  ultimately show ?thesis using False by (simp add: min_absorb2 del: power_Suc)
qed (simp add: mult.assoc)

lemma after_value:
  "cap \<le> limit \<Longrightarrow> secs d \<le> cap \<Longrightarrow>
     \<exists>d'. after n d = Some d' \<and> secs d' = min (secs d * 2 ^ n) cap"
proof (induction n arbitrary: d)
  case (Suc n)
  from step_below [OF Suc.prems] obtain d1 where d1: "step d = Some d1" "secs d1 = min (secs d * 2) cap"
    by blast
  with Suc.IH [of d1] Suc.prems(1) obtain d' where "after n d1 = Some d'"
    "secs d' = min (min (secs d * 2) cap * 2 ^ n) cap" by auto
  with d1 show ?case by (simp only: capped_twice) simp
qed simp

end

interpretation backoff: capped_backoff "next_backoff cap" unat "unat cap" "2 ^ 62" for cap :: Duration
proof
  fix d :: Duration
  assume "unat cap \<le> 2 ^ 62" and "unat d \<le> unat cap"
  moreover from this have "unat (d * 2) = unat d * 2"
    by (simp add: unat_word_ariths)
  ultimately show "\<exists>d'. next_backoff cap d = Some d' \<and> unat d' = min (unat d * 2) (unat cap)"
    by (auto simp: next_backoff_def double_duration_def min_def word_le_nat_alt)
qed

end
