(* ===== verification/Engine_InFlight.thy ===== *)
theory Engine_InFlight
  imports Engine_Base
begin

text \<open>
  The in-flight set, \<open>the-engine/src/in_flight.rs\<close>.  Each method takes the mutex for its whole
  duration, so its effect on the shared set is one atomic step; no method can panic while holding
  the lock, so the \<open>expect\<close> on a poisoned mutex is never reached.

  An \<open>InFlightSet\<close> value is a handle, the \<open>Arc\<close>, on a set behind a mutex.  The methods are given as
  operations on the set behind the handle (\<open>insert_task\<close> and its neighbours) and, where it matters
  which handles share a set, as operations on a store of sets addressed by handles (\<open>set_new\<close>,
  \<open>set_clone\<close>, \<open>set_insert\<close> and their neighbours).

  The locale \<open>dedup_guard\<close> is the contract a dispatcher relies on, and concurrent dispatchers over
  it are shown to run at most one attempt per task, whatever the interleaving.
\<close>

definition InFlightSet_new :: "TaskId fset" where
  "InFlightSet_new = {||}"

definition insert_task :: "TaskId \<Rightarrow> TaskId fset \<Rightarrow> bool \<times> TaskId fset" where
  "insert_task i s = (i |\<notin>| s, finsert i s)"

definition remove_task :: "TaskId \<Rightarrow> TaskId fset \<Rightarrow> TaskId fset" where
  "remove_task i s = s |-| {|i|}"

definition contains_task :: "TaskId \<Rightarrow> TaskId fset \<Rightarrow> bool" where
  "contains_task i s = (i |\<in>| s)"

definition len_tasks :: "TaskId fset \<Rightarrow> nat" where
  "len_tasks s = fcard s"

definition is_empty :: "TaskId fset \<Rightarrow> bool" where
  "is_empty s = (len_tasks s = 0)"

section \<open>Handles\<close>

text \<open>
  The sets on the heap, in the order they were made; a handle is an index.  \<open>new\<close> allocates a set,
  the derived \<open>clone\<close> copies the \<open>Arc\<close>, that is the handle.
\<close>

type_synonym set_store = "TaskId fset list"

definition set_new :: "set_store \<Rightarrow> nat \<times> set_store" where
  "set_new st = (length st, st @ [InFlightSet_new])"

definition set_clone :: "nat \<Rightarrow> set_store \<Rightarrow> nat \<times> set_store" where
  "set_clone h st = (h, st)"

definition set_insert :: "nat \<Rightarrow> TaskId \<Rightarrow> set_store \<Rightarrow> bool \<times> set_store" where
  "set_insert h i st = (let (new, s) = insert_task i (st ! h) in (new, st[h := s]))"

definition set_contains :: "nat \<Rightarrow> TaskId \<Rightarrow> set_store \<Rightarrow> bool" where
  "set_contains h i st = contains_task i (st ! h)"

definition set_len :: "nat \<Rightarrow> set_store \<Rightarrow> nat" where
  "set_len h st = len_tasks (st ! h)"

section \<open>The contract of a deduplication guard\<close>

locale dedup_guard =
  fixes start :: "'i \<Rightarrow> 's \<Rightarrow> bool \<times> 's"
    and finish :: "'i \<Rightarrow> 's \<Rightarrow> 's"
    and active :: "'i \<Rightarrow> 's \<Rightarrow> bool"
  assumes start_new: "fst (start i s) \<longleftrightarrow> \<not> active i s"
    and start_active: "active j (snd (start i s)) \<longleftrightarrow> j = i \<or> active j s"
    and finish_active: "active j (finish i s) \<longleftrightarrow> j \<noteq> i \<and> active j s"
begin

text \<open>
  A pool of concurrent dispatchers: worker \<open>n\<close> holds the task it was admitted for, if any.  A step
  is one atomic operation of one worker: a start, which is admitted or turned away, or the finish
  of a running attempt.
\<close>

inductive pool_step :: "(nat \<rightharpoonup> 'i) \<times> 's \<Rightarrow> (nat \<rightharpoonup> 'i) \<times> 's \<Rightarrow> bool" where
  admit: "w n = None \<Longrightarrow> start i s = (True, s') \<Longrightarrow> pool_step (w, s) (w(n \<mapsto> i), s')"
| turn_away: "w n = None \<Longrightarrow> start i s = (False, s') \<Longrightarrow> pool_step (w, s) (w, s')"
| complete: "w n = Some i \<Longrightarrow> pool_step (w, s) (w(n := None), finish i s)"

definition exclusive :: "(nat \<rightharpoonup> 'i) \<times> 's \<Rightarrow> bool" where
  "exclusive c \<longleftrightarrow> (\<forall>i. active i (snd c) \<longleftrightarrow> (\<exists>n. fst c n = Some i)) \<and>
     (\<forall>m n i. fst c m = Some i \<longrightarrow> fst c n = Some i \<longrightarrow> m = n)"

lemma workers_admit:
  "w n = None \<Longrightarrow> (\<exists>m. (w(n \<mapsto> i)) m = Some j) \<longleftrightarrow> j = i \<or> (\<exists>m. w m = Some j)"
  by (metis fun_upd_apply option.distinct(1) option.inject)

lemma workers_complete:
  assumes "w n = Some i" and "\<And>m m' j. w m = Some j \<Longrightarrow> w m' = Some j \<Longrightarrow> m = m'"
  shows "(\<exists>m. (w(n := None)) m = Some j) \<longleftrightarrow> j \<noteq> i \<and> (\<exists>m. w m = Some j)"
  using assms by (metis fun_upd_apply option.distinct(1) option.inject)

lemma exclusive_step: "pool_step c c' \<Longrightarrow> exclusive c \<Longrightarrow> exclusive c'"
proof (induction rule: pool_step.induct)
  case (admit w n i s s')
  then have iff: "active j s \<longleftrightarrow> (\<exists>m. w m = Some j)" and inj: "w m = Some j \<Longrightarrow> w m' = Some j \<Longrightarrow> m = m'"
    for j m m' by (auto simp: exclusive_def)
  have new: "\<not> active i s" and act: "active j s' \<longleftrightarrow> j = i \<or> active j s" for j
    using admit(2) start_new [of i s] start_active [of j i s] by simp_all
  from new iff have "w m \<noteq> Some i" for m by auto
  then show ?case
    unfolding exclusive_def fst_conv snd_conv workers_admit [of w n, OF admit(1)] act iff
    using inj by (auto split: if_splits)
next
  case (turn_away w n i s s')
  have "active i s" and act: "active j s' \<longleftrightarrow> j = i \<or> active j s" for j
    using turn_away(2) start_new [of i s] start_active [of j i s] by simp_all
  with turn_away(3) show ?case unfolding exclusive_def by auto
next
  case (complete w n i s)
  then have iff: "active j s \<longleftrightarrow> (\<exists>m. w m = Some j)" and inj: "w m = Some j \<Longrightarrow> w m' = Some j \<Longrightarrow> m = m'"
    for j m m' by (auto simp: exclusive_def)
  have "active j (finish i s) \<longleftrightarrow> (\<exists>m. (w(n := None)) m = Some j)" for j
    unfolding finish_active iff using workers_complete [of w n i j] complete(1) inj by metis
  moreover have "(w(n := None)) m = Some j \<Longrightarrow> w m = Some j" for m j by (auto split: if_splits)
  ultimately show ?case unfolding exclusive_def fst_conv snd_conv using inj by metis
qed

lemma exclusive_run: "pool_step\<^sup>*\<^sup>* c c' \<Longrightarrow> exclusive c \<Longrightarrow> exclusive c'"
  by (induction rule: rtranclp_induct) (auto intro: exclusive_step)

end

interpretation guard: dedup_guard insert_task remove_task contains_task
  by unfold_locales (auto simp: insert_task_def remove_task_def contains_task_def)

section \<open>Properties\<close>

text \<open>
  C15: at most one execution attempt per task is active.  However any number of concurrent
  dispatchers interleave their \<open>insert\<close> and \<open>remove\<close> calls on a fresh set, no two of them run the
  same task at the same time, and the set holds exactly the tasks being run.
\<close>
theorem at_most_one_in_flight:
  assumes "guard.pool_step\<^sup>*\<^sup>* (Map.empty, InFlightSet_new) (w, s)"
  shows "(\<forall>m n i. w m = Some i \<longrightarrow> w n = Some i \<longrightarrow> m = n) \<and>
    (\<forall>i. contains_task i s \<longleftrightarrow> (\<exists>n. w n = Some i))"
proof -
  have "guard.exclusive (Map.empty, InFlightSet_new)"
    by (simp add: guard.exclusive_def InFlightSet_new_def contains_task_def)
  from guard.exclusive_run [OF assms this] show ?thesis by (simp add: guard.exclusive_def)
qed

theorem at_most_one_in_flight_witness:
  "guard.pool_step\<^sup>*\<^sup>* (Map.empty, InFlightSet_new) ([0 \<mapsto> [1], 1 \<mapsto> [2]], {|[2], [1]|}) \<and>
   contains_task [2] {|[2], [1]|}"
proof -
  have "guard.pool_step (Map.empty, InFlightSet_new) ([0 \<mapsto> [1]], {|[1]|})"
    by (rule guard.admit) (simp_all add: insert_task_def InFlightSet_new_def)
  moreover have "guard.pool_step ([0 \<mapsto> [1]], {|[1]|}) ([0 \<mapsto> [1], 1 \<mapsto> [2]], {|[2], [1]|})"
    by (rule guard.admit) (simp_all add: insert_task_def)
  ultimately have run: "guard.pool_step\<^sup>*\<^sup>* (Map.empty, InFlightSet_new) ([0 \<mapsto> [1], 1 \<mapsto> [2]], {|[2], [1]|})"
    by (meson converse_rtranclp_into_rtranclp r_into_rtranclp)
  have "([0 \<mapsto> [1], 1 \<mapsto> [2]] :: nat \<rightharpoonup> TaskId) 1 = Some [2]" by simp
  with at_most_one_in_flight [OF run] run show ?thesis by blast
qed

text \<open>
  The set operations: \<open>insert\<close> reports novelty and is idempotent, \<open>remove\<close> undoes a new insert and
  touches nothing else, and \<open>len\<close> counts the distinct tasks inserted.
\<close>

lemma in_flight_operations:
  "(fst (insert_task i s) \<longleftrightarrow> \<not> contains_task i s) \<and>
   insert_task i (snd (insert_task i s)) = (False, snd (insert_task i s)) \<and>
   (\<forall>j. contains_task j (remove_task i s) \<longleftrightarrow> j \<noteq> i \<and> contains_task j s) \<and>
   (if contains_task i s then snd (insert_task i s) = s
    else remove_task i (snd (insert_task i s)) = s \<and>
      len_tasks (snd (insert_task i s)) = len_tasks s + 1) \<and>
   (is_empty s \<longleftrightarrow> s = InFlightSet_new)"
  by (auto simp: insert_task_def remove_task_def contains_task_def len_tasks_def is_empty_def
      InFlightSet_new_def fcard_finsert_disjoint)

section \<open>Concurrent inserts through clones\<close>

text \<open>
  A task that holds a clone inserts an identifier and then, if that was new, does its work, here the
  increment of a counter; both are atomic, and any task may take the next step.
\<close>

fun clones :: "nat \<Rightarrow> nat \<Rightarrow> set_store \<Rightarrow> nat list \<times> set_store" where
  "clones 0 h st = ([], st)"
| "clones (Suc n) h st =
     (let (h', st') = set_clone h st; (hs, st'') = clones n h st' in (h' # hs, st''))"

datatype insert_worker = NotStarted | Inserted bool | Counted

type_synonym insert_race = "insert_worker list \<times> set_store \<times> nat"

inductive race_step :: "nat list \<Rightarrow> TaskId \<Rightarrow> insert_race \<Rightarrow> insert_race \<Rightarrow> bool" for hs i where
  insert: "n < length ws \<Longrightarrow> ws ! n = NotStarted \<Longrightarrow> set_insert (hs ! n) i st = (new, st') \<Longrightarrow>
    race_step hs i (ws, st, k) (ws[n := Inserted new], st', k)"
| count: "n < length ws \<Longrightarrow> ws ! n = Inserted new \<Longrightarrow>
    race_step hs i (ws, st, k) (ws[n := Counted], st, if new then k + 1 else k)"

lemma clones_share: "clones n h st = (replicate n h, st)"
  by (induction n) (simp_all add: set_clone_def)

fun steps_done :: "insert_worker \<Rightarrow> nat" where
  "steps_done NotStarted = 0" | "steps_done (Inserted _) = 1" | "steps_done Counted = 2"

definition won :: "insert_worker list \<Rightarrow> nat" where
  "won ws = sum_list (map (\<lambda>w. of_bool (w = Inserted True)) ws)"

definition race_steps :: "insert_worker list \<Rightarrow> nat" where
  "race_steps ws = sum_list (map steps_done ws)"

lemma map_sum_update:
  "n < length ws \<Longrightarrow> sum_list (map f (ws[n := w])) + f (ws ! n) = sum_list (map f ws) + (f w :: nat)"
  by (induction ws arbitrary: n) (auto simp: nth_Cons' split: nat.splits)

lemma race_updates:
  assumes "n < length ws"
  shows "won (ws[n := w]) + of_bool (ws ! n = Inserted True) = won ws + of_bool (w = Inserted True)"
    and "race_steps (ws[n := w]) + steps_done (ws ! n) = race_steps ws + steps_done w"
  unfolding won_def race_steps_def by (rule map_sum_update [OF assms])+

lemma race_steps_bound: "race_steps ws \<le> 2 * length ws"
proof (induction ws)
  case (Cons w ws)
  then show ?case by (cases w) (simp_all add: race_steps_def)
qed (simp add: race_steps_def)

lemma race_over: "race_steps ws = 2 * length ws \<longleftrightarrow> set ws \<subseteq> {Counted}"
proof (induction ws)
  case (Cons w ws)
  then show ?case using race_steps_bound [of ws] by (cases w) (auto simp: race_steps_def)
qed (simp add: race_steps_def)

text \<open>
  After \<open>m\<close> steps through handles on one set: the first insert decides, and the tasks that were told
  their insert was new and the count together never exceed one.
\<close>

definition race_inv :: "nat \<Rightarrow> TaskId \<Rightarrow> nat \<Rightarrow> set_store \<Rightarrow> nat \<Rightarrow> insert_race \<Rightarrow> bool" where
  "race_inv h i tasks st0 m c = (case c of (ws, st, k) \<Rightarrow> length ws = tasks \<and> race_steps ws = m \<and>
     st = (if m = 0 then st0 else st0[h := finsert i (st0 ! h)]) \<and>
     k + won ws = (if m = 0 \<or> i |\<in>| st0 ! h then 0 else 1))"

lemma race_inv_step:
  assumes h: "h < length st0" and step: "race_step (replicate tasks h) i c c'"
    and inv: "race_inv h i tasks st0 m c"
  shows "race_inv h i tasks st0 (Suc m) c'"
  using step
proof (cases rule: race_step.cases)
  case (insert n ws st new st' k)
  then have "n < tasks" using inv by (simp add: race_inv_def)
  with insert have new: "new \<longleftrightarrow> i |\<notin>| st ! h" "st' = st[h := finsert i (st ! h)]"
    by (simp_all add: set_insert_def insert_task_def)
  with insert inv h race_updates [of n ws "Inserted new"] show ?thesis
    by (auto simp: race_inv_def finsert_absorb split: if_splits)
next
  case (count n ws new k st)
  with inv race_updates [of n ws Counted] race_updates(2) [of n ws NotStarted] show ?thesis
    by (auto simp: race_inv_def split: if_splits)
qed

lemma race_run:
  assumes "h < length st" and "(race_step (replicate tasks h) i ^^ m) (replicate tasks NotStarted, st, 0) c"
  shows "race_inv h i tasks st m c"
  using assms(2)
proof (induction m arbitrary: c)
  case 0
  then show ?case by (auto simp: race_inv_def race_steps_def won_def sum_list_replicate)
next
  case (Suc m)
  from Suc.prems obtain c' where run: "(race_step (replicate tasks h) i ^^ m) (replicate tasks NotStarted, st, 0) c'"
    and step: "race_step (replicate tasks h) i c' c" by (rule relpowp_Suc_E)
  from race_inv_step [OF assms(1) step Suc.IH [OF run]] show ?case .
qed

lemma race_progress:
  assumes "\<not> set ws \<subseteq> {Counted}"
  shows "\<exists>c. race_step hs i (ws, st, k) c"
proof -
  from assms obtain w where "w \<in> set ws" "w \<noteq> Counted" by blast
  then obtain n where n: "n < length ws" "ws ! n \<noteq> Counted" by (metis in_set_conv_nth)
  show ?thesis
  proof (cases "ws ! n")
    case NotStarted
    with n race_step.insert [of n ws hs i st] show ?thesis by (metis surj_pair)
  next
    case (Inserted new)
    with n race_step.count [of n ws new] show ?thesis by blast
  qed (use n in simp)
qed

lemma race_result:
  assumes "h < length st" and "clones tasks h st = (hs, st1)" and "0 < tasks"
    and "(race_step hs i ^^ m) (replicate tasks NotStarted, st1, 0) (ws, st', k)"
  shows "m \<le> 2 * tasks \<and> (m < 2 * tasks \<longrightarrow> (\<exists>c. race_step hs i (ws, st', k) c)) \<and>
    (m = 2 * tasks \<longrightarrow> k = (if set_contains h i st then 0 else 1) \<and> st' = st[h := finsert i (st ! h)] \<and>
      (\<forall>h' \<in> set hs. set_contains h' i st'))"
proof -
  have hs: "hs = replicate tasks h" "st1 = st" using assms(2) by (simp_all add: clones_share)
  from race_run [OF assms(1), of m tasks i "(ws, st', k)"] assms(4) have inv: "race_inv h i tasks st m (ws, st', k)"
    by (simp add: hs)
  then have len: "length ws = tasks" and m: "race_steps ws = m" by (simp_all add: race_inv_def)
  have bound: "m \<le> 2 * tasks" using race_steps_bound [of ws] len m by simp
  have more: "\<exists>c. race_step hs i (ws, st', k) c" if "m < 2 * tasks"
    using race_progress [of ws hs i st' k] race_over [of ws] that len m by auto
  have "won ws = 0" if "m = 2 * tasks"
    using race_over [of ws] that len m by (fastforce simp: won_def)
  with inv assms(1,3) have "k = (if set_contains h i st then 0 else 1) \<and> st' = st[h := finsert i (st ! h)] \<and>
      (\<forall>h' \<in> set hs. set_contains h' i st')" if "m = 2 * tasks"
    using that by (auto simp: race_inv_def set_contains_def contains_task_def hs split: if_splits)
  with bound more show ?thesis by blast
qed

text \<open>
  C38: clones of the in-flight set admit one task.  However many tasks hold a clone of one set and
  however their steps interleave, all of them finish after two steps each and until then some step is
  possible; at the end exactly one of them was told that its insert was new (none when the identifier
  was in the set before), every clone sees the identifier, and no other set on the heap changed.
\<close>
theorem clones_admit_one:
  assumes "h < length st" and "clones tasks h st = (hs, st1)" and "0 < tasks"
    and "(race_step hs i ^^ m) (replicate tasks NotStarted, st1, 0) (ws, st', k)"
  shows "m \<le> 2 * tasks \<and> (m < 2 * tasks \<longrightarrow> (\<exists>c. race_step hs i (ws, st', k) c)) \<and>
    (m = 2 * tasks \<longrightarrow> k = (if set_contains h i st then 0 else 1) \<and> st' = st[h := finsert i (st ! h)] \<and>
      (\<forall>h' \<in> set hs. set_contains h' i st'))"
  using assms by (rule race_result)

lemma four_steps: "r a b \<Longrightarrow> r b c \<Longrightarrow> r c d \<Longrightarrow> r d e \<Longrightarrow> (r ^^ 4) a e"
  by (auto simp: numeral_eq_Suc intro: relcomppI)

theorem clones_admit_one_witness:
  "\<exists>ws st' k. (race_step (fst (clones 2 0 [{||}, {||}])) [7] ^^ 4) (replicate 2 NotStarted, [{||}, {||}], 0) (ws, st', k) \<and>
     k = 1 \<and> st' = [{|[7]|}, {||}]"
proof -
  let ?hs = "fst (clones 2 0 [{||}, {||}])"
  have hs: "?hs = [0, 0]" by (simp add: clones_share numeral_2_eq_2)
  have ws: "replicate 2 NotStarted = [NotStarted, NotStarted]" by (simp add: numeral_2_eq_2)
  have "race_step ?hs [7] ([NotStarted, NotStarted], [{||}, {||}], 0) ([NotStarted, Inserted True], [{|[7]|}, {||}], 0)"
    using race_step.insert [of 1 "[NotStarted, NotStarted]" ?hs "[7]" "[{||}, {||}]" True _ 0]
    by (simp add: hs set_insert_def insert_task_def)
  moreover have "race_step ?hs [7] ([NotStarted, Inserted True], [{|[7]|}, {||}], 0)
      ([Inserted False, Inserted True], [{|[7]|}, {||}], 0)"
    using race_step.insert [of 0 "[NotStarted, Inserted True]" ?hs "[7]" "[{|[7]|}, {||}]" False _ 0]
    by (simp add: hs set_insert_def insert_task_def)
  moreover have "race_step ?hs [7] ([Inserted False, Inserted True], [{|[7]|}, {||}], 0)
      ([Counted, Inserted True], [{|[7]|}, {||}], 0)"
    using race_step.count [of 0 "[Inserted False, Inserted True]" False ?hs "[7]" "[{|[7]|}, {||}]" 0] by simp
  moreover have "race_step ?hs [7] ([Counted, Inserted True], [{|[7]|}, {||}], 0)
      ([Counted, Counted], [{|[7]|}, {||}], 1)"
    using race_step.count [of 1 "[Counted, Inserted True]" True ?hs "[7]" "[{|[7]|}, {||}]" 0] by simp
  ultimately have run: "(race_step ?hs [7] ^^ 4) (replicate 2 NotStarted, [{||}, {||}], 0)
      ([Counted, Counted], [{|[7]|}, {||}], 1)"
    unfolding ws by (rule four_steps)
  have "clones 2 0 [{||}, {||}] = (?hs, [{||}, {||}])" by (simp add: clones_share)
  from clones_admit_one [OF _ this _ run] run show ?thesis by (auto simp: set_contains_def contains_task_def)
qed

end
