(* ===== verification/Engine_Rpc.thy ===== *)
theory Engine_Rpc
  imports Engine_Base
begin

text \<open>
  The JSON-RPC client, \<open>the-engine/src/rpc_client.rs\<close>: one HTTP request per call, the classification
  of failures into transient and non-transient, and the readings of the four methods.
\<close>

record RpcClient =
  endpoint :: string
  connect_timeout :: Duration
  request_timeout :: Duration

definition RpcClient_new :: "string \<Rightarrow> Duration \<Rightarrow> RpcClient" where
  "RpcClient_new url t = \<lparr>endpoint = url, connect_timeout = 10, request_timeout = t\<rparr>"

definition classify_send_error :: "http_error \<Rightarrow> EngineError" where
  "classify_send_error e =
     (if is_timeout e then Transient RpcTimeout
      else if is_connect e then Transient ConnectionReset
      else Transient (Io OtherKind (error_text e)))"

definition rpc_call :: "('n, 'v) Platform \<Rightarrow> RpcClient \<Rightarrow> string \<Rightarrow> 'v \<Rightarrow> ('n, 'v) engine" where
  "rpc_call p rpc method params =
     (let body = json_object p [(''jsonrpc'', json_string p ''2.0''), (''id'', json_number p 1),
            (''method'', json_string p method), (''params'', params)] in
      bind_c (log_c (RpcCall method)) (\<lambda>_.
      bind_c (await_c p (post p (endpoint rpc) (connect_timeout rpc) (request_timeout rpc) body)) (\<lambda>reply.
      case reply of
        SendError e \<Rightarrow> throw_c (classify_send_error e)
      | Response status_ok decoded \<Rightarrow>
          if \<not> status_ok then
            bind_c (log_c RpcHttpError) (\<lambda>_. throw_c (Transient RpcTimeout))
          else (case decoded of
              Inl err \<Rightarrow> throw_c (Transient (Io InvalidData err))
            | Inr json \<Rightarrow>
                (case json_get p json ''error'' of
                   Some err \<Rightarrow> throw_c (NonTransient (ContractRejection (json_text p err)))
                 | None \<Rightarrow> return_c (json_index p json ''result''))))))"

definition get_latest_ledger ::
  "('n, 'v) Platform \<Rightarrow> RpcClient \<Rightarrow> ('n Engine, TransientError, u32) comp" where
  "get_latest_ledger p rpc =
     bind_c (try_c (rpc_call p rpc ''getLatestLedger'' (json_object p []))) (\<lambda>r.
     case r of
       Inl (Transient t) \<Rightarrow> throw_c t
     | Inl (NonTransient ne) \<Rightarrow> bind_c (log_c (TreatedAsTransient ne)) (\<lambda>_. throw_c RpcTimeout)
     | Inr result \<Rightarrow>
         (case json_as_u64 p (json_index p result ''sequence'') of
            None \<Rightarrow> throw_c (Io InvalidData ''missing 'sequence' field in getLatestLedger response'')
          | Some n \<Rightarrow> return_c (ucast n)))"

definition query_executable_tasks ::
  "('n, 'v) Platform \<Rightarrow> RpcClient \<Rightarrow> string \<Rightarrow> u32 \<Rightarrow> ('n, RemoteTask list) engine" where
  "query_executable_tasks p rpc anchor_address current_ledger = return_c []"

definition send_transaction :: "('n, 'v) Platform \<Rightarrow> RpcClient \<Rightarrow> string \<Rightarrow> ('n, TxHash) engine" where
  "send_transaction p rpc signed_xdr =
     bind_c (rpc_call p rpc ''sendTransaction''
               (json_object p [(''transaction'', json_string p signed_xdr)])) (\<lambda>result.
     ok_or_c (NonTransient (ContractRejection ''missing 'hash' in sendTransaction response''))
       (json_as_str p (json_index p result ''hash'')))"

definition get_transaction :: "('n, 'v) Platform \<Rightarrow> RpcClient \<Rightarrow> TxHash \<Rightarrow> ('n, TxResult) engine" where
  "get_transaction p rpc h =
     bind_c (rpc_call p rpc ''getTransaction'' (json_object p [(''hash'', json_string p h)])) (\<lambda>result.
     let status = unwrap_or ''UNKNOWN'' (json_as_str p (json_index p result ''status''));
         ok = (status = ''SUCCESS'');
         seq = ucast (unwrap_or 0 (json_as_u64 p (json_index p result ''ledger'')));
         detail = (if \<not> ok
            then Some (unwrap_or '''' (json_as_str p (json_index p result ''resultMetaXdr'')))
            else None) in
     return_c \<lparr>hash = h, ledger = seq, success = ok, error_detail = detail\<rparr>)"

section \<open>What a call touches\<close>

text \<open>
  \<open>touches_net L m\<close>: \<open>m\<close> changes the network and appends events of \<open>L\<close> to the log, and nothing else;
  with no deadline pending it does not panic.
\<close>

definition extends :: "LogEvent set \<Rightarrow> 'n Engine \<Rightarrow> 'n Engine \<Rightarrow> bool" where
  "extends L s s' \<longleftrightarrow> (\<exists>l n. s' = s\<lparr>log := log s @ l, net := n\<rparr> \<and> set l \<subseteq> L)"

definition touches_net :: "LogEvent set \<Rightarrow> ('n Engine, 'e, 'a) comp \<Rightarrow> bool" where
  "touches_net L m \<longleftrightarrow> (\<forall>s r s'. m s = (r, s') \<longrightarrow> extends L s s' \<and>
     (\<forall>msg. r = Panic msg \<longrightarrow> msg = CANCELLED \<and> deadline s \<noteq> None))"

lemma extends_refl [simp]: "extends L s s"
  by (auto simp: extends_def intro!: exI [of _ "[]"] exI [of _ "net s"])

lemma extends_net [simp]: "extends L s (s\<lparr>net := n\<rparr>)"
  by (auto simp: extends_def intro!: exI [of _ "[]"] exI [of _ n])

lemma extends_log [simp]: "ev \<in> L \<Longrightarrow> extends L s (s\<lparr>log := log s @ [ev]\<rparr>)"
  by (auto simp: extends_def intro!: exI [of _ "[ev]"] exI [of _ "net s"])

lemma extends_trans: "extends L s s' \<Longrightarrow> extends L s' s'' \<Longrightarrow> extends L s s''"
  by (fastforce simp: extends_def)

lemma extends_mono: "extends L s s' \<Longrightarrow> L \<subseteq> M \<Longrightarrow> extends M s s'"
  by (fastforce simp: extends_def)

lemma extends_frame:
  assumes "extends L s s'"
  shows "deadline s' = deadline s" and "in_flight s' = in_flight s"
    and "last_confirmed_ts s' = last_confirmed_ts s" and "last_known_ledger s' = last_known_ledger s"
    and "task_cache s' = task_cache s" and "broadcasts s' = broadcasts s"
  using assms by (auto simp: extends_def)

lemma touches_prim [simp]:
  "touches_net L (return_c a)" "touches_net L (throw_c e)" "ev \<in> L \<Longrightarrow> touches_net L (log_c ev)"
  "touches_net L (ok_or_c e x)" "touches_net L skip_c"
  by (cases x; simp add: touches_net_def comp_simps)+

lemma touches_await [simp]: "touches_net L (await_c p f)"
  by (auto simp: touches_net_def await_c_def split: prod.splits option.splits if_splits)

lemma touches_sleep [simp]: "touches_net L (sleep_c p d)"
  by (simp add: sleep_c_def)

lemma touches_bind:
  assumes m: "touches_net L m" and f: "\<And>a. touches_net L (f a)"
  shows "touches_net L (bind_c m f)"
  unfolding touches_net_def
proof (intro allI impI)
  fix s r s'
  assume run: "bind_c m f s = (r, s')"
  obtain x s1 where ms: "m s = (x, s1)" by fastforce
  with m have s1: "extends L s s1"
    and pan: "\<And>msg. x = Panic msg \<Longrightarrow> msg = CANCELLED \<and> deadline s \<noteq> None"
    unfolding touches_net_def by metis+
  show "extends L s s' \<and> (\<forall>msg. r = Panic msg \<longrightarrow> msg = CANCELLED \<and> deadline s \<noteq> None)"
  proof (cases x)
    case (Ok a)
    with run ms have "f a s1 = (r, s')" by (simp add: comp_simps)
    with f [of a] have "extends L s1 s'"
      "\<forall>msg. r = Panic msg \<longrightarrow> msg = CANCELLED \<and> deadline s1 \<noteq> None"
      unfolding touches_net_def by metis+
    with extends_trans [OF s1] extends_frame(1) [OF s1] show ?thesis by simp
  next
    case (Err e)
    with run ms s1 show ?thesis by (auto simp: comp_simps)
  next
    case (Panic msg)
    with run ms s1 pan show ?thesis by (auto simp: comp_simps)
  qed
qed

lemma touches_try: "touches_net L m \<Longrightarrow> touches_net L (try_c m)"
  by (fastforce simp: touches_net_def try_c_def split: prod.splits outcome.splits)

lemma touches_free:
  "touches_net L m \<Longrightarrow> deadline s = None \<Longrightarrow> m s = (r, s') \<Longrightarrow> extends L s s' \<and> (\<forall>msg. r \<noteq> Panic msg)"
  by (fastforce simp: touches_net_def)

definition rpc_log :: "string \<Rightarrow> LogEvent set" where
  "rpc_log method = {RpcCall method, RpcHttpError}"

lemma touches_call: "touches_net (rpc_log method) (rpc_call p rpc method params)"
  unfolding rpc_call_def Let_def rpc_log_def
  by (auto intro!: touches_bind split: http_reply.split sum.split option.split)

lemma touches_requests:
  "touches_net (rpc_log ''sendTransaction'') (send_transaction p rpc x)"
  "touches_net (rpc_log ''getTransaction'') (get_transaction p rpc h)"
  unfolding send_transaction_def get_transaction_def Let_def
  by (auto intro!: touches_bind touches_call)

lemma touches_mono: "touches_net L m \<Longrightarrow> L \<subseteq> M \<Longrightarrow> touches_net M m"
  using extends_mono [of L _ _ M] unfolding touches_net_def by blast

lemma touches_latest:
  "touches_net (rpc_log ''getLatestLedger'' \<union> range TreatedAsTransient) (get_latest_ledger p rpc)"
  unfolding get_latest_ledger_def
  by (auto intro!: touches_bind touches_try touches_mono [OF touches_call]
      split: sum.split option.split EngineError.split)

text \<open>A request is announced in the log exactly once.\<close>

definition rpc_reply :: "('n, 'v) Platform \<Rightarrow> RpcClient \<Rightarrow> 'v \<Rightarrow> ('n, 'v) engine" where
  "rpc_reply p rpc body =
     bind_c (await_c p (post p (endpoint rpc) (connect_timeout rpc) (request_timeout rpc) body)) (\<lambda>reply.
      case reply of
        SendError e \<Rightarrow> throw_c (classify_send_error e)
      | Response status_ok decoded \<Rightarrow>
          if \<not> status_ok then
            bind_c (log_c RpcHttpError) (\<lambda>_. throw_c (Transient RpcTimeout))
          else (case decoded of
              Inl err \<Rightarrow> throw_c (Transient (Io InvalidData err))
            | Inr json \<Rightarrow>
                (case json_get p json ''error'' of
                   Some err \<Rightarrow> throw_c (NonTransient (ContractRejection (json_text p err)))
                 | None \<Rightarrow> return_c (json_index p json ''result''))))"

lemma rpc_call_apply:
  "rpc_call p rpc method params s =
     rpc_reply p rpc (json_object p [(''jsonrpc'', json_string p ''2.0''), (''id'', json_number p 1),
            (''method'', json_string p method), (''params'', params)])
       (s\<lparr>log := log s @ [RpcCall method]\<rparr>)"
  by (simp add: rpc_call_def rpc_reply_def Let_def comp_simps)

lemma touches_reply: "touches_net {RpcHttpError} (rpc_reply p rpc body)"
  unfolding rpc_reply_def
  by (auto intro!: touches_bind split: http_reply.split sum.split option.split)

lemma call_log:
  assumes "rpc_call p rpc method params s = (r, s')"
  shows "\<exists>l n. s' = s\<lparr>log := log s @ RpcCall method # l, net := n\<rparr> \<and> set l \<subseteq> {RpcHttpError}"
proof -
  have "extends {RpcHttpError} (s\<lparr>log := log s @ [RpcCall method]\<rparr>) s'"
    using touches_reply [unfolded touches_net_def, rule_format, OF assms [unfolded rpc_call_apply]] by simp
  then show ?thesis by (auto simp: extends_def)
qed

lemma request_log:
  assumes "bind_c (rpc_call p rpc method params) (\<lambda>v. f v) s = (r, s')"
    and "\<And>v t. \<exists>x. f v t = (x, t)"
  shows "\<exists>l n. s' = s\<lparr>log := log s @ RpcCall method # l, net := n\<rparr> \<and> set l \<subseteq> {RpcHttpError}"
proof -
  obtain x s1 where run: "rpc_call p rpc method params s = (x, s1)" by fastforce
  with assms have "s' = s1"
    by (cases x) (auto simp: comp_simps, metis prod.inject)
  with call_log [OF run] show ?thesis by simp
qed

lemma ok_or_c_still: "\<exists>x. ok_or_c e v t = (x, t)"
  by (cases v) (auto simp: comp_simps)

lemma send_log:
  "send_transaction p rpc x s = (r, s') \<Longrightarrow>
     \<exists>l n. s' = s\<lparr>log := log s @ RpcCall ''sendTransaction'' # l, net := n\<rparr> \<and> set l \<subseteq> {RpcHttpError}"
  unfolding send_transaction_def by (erule request_log) (rule ok_or_c_still)

lemma get_log:
  "get_transaction p rpc h s = (r, s') \<Longrightarrow>
     \<exists>l n. s' = s\<lparr>log := log s @ RpcCall ''getTransaction'' # l, net := n\<rparr> \<and> set l \<subseteq> {RpcHttpError}"
  unfolding get_transaction_def Let_def by (erule request_log) (simp add: comp_simps)

section \<open>What a request does to the network\<close>

definition request_body :: "('n, 'v) Platform \<Rightarrow> string \<Rightarrow> 'v \<Rightarrow> 'v" where
  "request_body p method params = json_object p [(''jsonrpc'', json_string p ''2.0''),
     (''id'', json_number p 1), (''method'', json_string p method), (''params'', params)]"

definition send_body :: "('n, 'v) Platform \<Rightarrow> string \<Rightarrow> 'v" where
  "send_body p xdr = request_body p ''sendTransaction'' (json_object p [(''transaction'', json_string p xdr)])"

definition ask_body :: "('n, 'v) Platform \<Rightarrow> TxHash \<Rightarrow> 'v" where
  "ask_body p h = request_body p ''getTransaction'' (json_object p [(''hash'', json_string p h)])"

text \<open>The network after a submission nothing interrupts: one request with its body, and nothing else.\<close>

definition submit_net :: "('n, 'v) Platform \<Rightarrow> RpcClient \<Rightarrow> string \<Rightarrow> 'n \<Rightarrow> 'n" where
  "submit_net p rpc xdr n =
     snd (post p (endpoint rpc) (connect_timeout rpc) (request_timeout rpc) (send_body p xdr) n)"

lemma send_net:
  assumes free: "deadline s = None" and run: "send_transaction p rpc xdr s = (r, s')"
  shows "net s' = submit_net p rpc xdr (net s)"
proof -
  obtain a n where post: "post p (endpoint rpc) (connect_timeout rpc) (request_timeout rpc) (send_body p xdr) (net s) = (a, n)"
    by fastforce
  then show ?thesis
    using run free
    by (auto simp: send_transaction_def rpc_call_def Let_def comp_simps send_body_def request_body_def
        submit_net_def bind_c_def log_c_def ok_or_c_def return_c_def throw_c_def
        split: http_reply.splits sum.splits option.splits if_splits)
qed

end
