(* ===== verification/Engine_Sandbox.thy ===== *)
theory Engine_Sandbox
  imports Engine_Rpc
begin

text \<open>
  A concrete platform on which the engine's theorems are applied: the network is a script of the
  replies still to come and a clock that advances by one per request and by the duration of a
  sleep; a request beyond the end of the script times out.
\<close>

datatype demo_json = JNull | JText string | JNum u64 | JObj "(string \<times> demo_json) list"

record demo_net =
  script :: "demo_json http_reply list"
  time :: nat

fun demo_get :: "demo_json \<Rightarrow> string \<Rightarrow> demo_json option" where
  "demo_get (JObj fs) key = map_of fs key"
| "demo_get _ key = None"

fun demo_str :: "demo_json \<Rightarrow> string option" where
  "demo_str (JText s) = Some s"
| "demo_str _ = None"

fun demo_u64 :: "demo_json \<Rightarrow> u64 option" where
  "demo_u64 (JNum n) = Some n"
| "demo_u64 _ = None"

definition demo_post :: "demo_net \<Rightarrow> demo_json http_reply \<times> demo_net" where
  "demo_post n = (case script n of
       [] \<Rightarrow> (SendError \<lparr>is_timeout = True, is_connect = False, error_text = ''''\<rparr>, n\<lparr>time := time n + 1\<rparr>)
     | r # rs \<Rightarrow> (r, \<lparr>script = rs, time = time n + 1\<rparr>))"

definition demo_platform :: "cargo_profile \<Rightarrow> (demo_net, demo_json) Platform" where
  "demo_platform b =
     \<lparr>build = b, post = (\<lambda>url c t body. demo_post), json_object = JObj, json_string = JText,
      json_number = (\<lambda>n. JNum (of_nat n)), json_get = demo_get,
      json_index = (\<lambda>v k. case demo_get v k of None \<Rightarrow> JNull | Some x \<Rightarrow> x),
      json_as_str = demo_str, json_as_u64 = demo_u64, json_text = (\<lambda>v. ''json''),
      sleep_for = (\<lambda>d n. n\<lparr>time := time n + unat d\<rparr>), instant = time,
      interrupted = (\<lambda>t n. n\<lparr>time := t\<rparr>), unix_time = (\<lambda>n. Some (of_nat (time n))),
      hex_decode = (\<lambda>s. Some (map (\<lambda>c. of_nat (byte_of c)) s)),
      hex_encode = map (\<lambda>b. char_of (unat b)), sign = (\<lambda>k m. k)\<rparr>"

definition demo_engine :: "demo_json http_reply list \<Rightarrow> demo_net Engine" where
  "demo_engine replies =
     \<lparr>in_flight = {||}, last_confirmed_ts = 0, last_known_ledger = 0, task_cache = Map.empty,
      broadcasts = [], log = [], deadline = None, net = \<lparr>script = replies, time = 1000\<rparr>\<rparr>"

definition demo_rpc :: RpcClient where
  "demo_rpc = RpcClient_new ''http://rpc'' 10"

definition result_reply :: "(string \<times> demo_json) list \<Rightarrow> demo_json http_reply" where
  "result_reply fs = Response True (Inr (JObj [(''result'', JObj fs)]))"

lemmas demo_defs = demo_platform_def demo_engine_def demo_rpc_def RpcClient_new_def result_reply_def demo_post_def

section \<open>Properties of the RPC client\<close>

text \<open>
  C34: how a failed submission is classified.  It is permanent exactly when the server answered
  with well-formed JSON; a request that could not be sent, an HTTP error status and an unreadable
  body are all retried.
\<close>
theorem submission_failures_classified:
  assumes "deadline s = None" and "send_transaction p rpc xdr s = (Err e, s')"
  shows "\<not> is_transient e \<longleftrightarrow>
    (\<exists>json. fst (post p (endpoint rpc) (connect_timeout rpc) (request_timeout rpc)
       (json_object p [(''jsonrpc'', json_string p ''2.0''), (''id'', json_number p 1),
          (''method'', json_string p ''sendTransaction''),
          (''params'', json_object p [(''transaction'', json_string p xdr)])]) (net s)) =
       Response True (Inr json))"
  using assms
  by (auto simp: send_transaction_def rpc_call_def comp_simps Let_def classify_send_error_def
      bind_c_def ok_or_c_def split: http_reply.splits if_splits sum.splits option.splits)

theorem submission_failures_classified_witness:
  "\<exists>e s'. send_transaction (demo_platform Dev) demo_rpc ''x'' (demo_engine []) = (Err e, s') \<and> is_transient e"
proof -
  have "\<exists>e s'. send_transaction (demo_platform Dev) demo_rpc ''x'' (demo_engine []) = (Err e, s')"
    by (simp add: send_transaction_def rpc_call_def comp_simps Let_def demo_defs bind_c_def)
  then obtain e s' where run:
    "send_transaction (demo_platform Dev) demo_rpc ''x'' (demo_engine []) = (Err e, s')" by blast
  from submission_failures_classified [OF _ run] run show ?thesis
    by (auto simp: demo_defs)
qed

text \<open>
  \<open>getTransaction\<close> is read as final on the first answer: whatever the status, the result has
  \<open>success\<close> set or an error detail, so a transaction that is still pending or not yet found is
  indistinguishable from a failed one.
\<close>

lemma transaction_reading_is_final:
  assumes "get_transaction p rpc h s = (Ok tx, s')"
  shows "hash tx = h \<and> (success tx \<longleftrightarrow> error_detail tx = None) \<and>
    (\<exists>result. (success tx \<longleftrightarrow> json_as_str p (json_index p result ''status'') = Some ''SUCCESS'') \<and>
       unat (ledger tx) = unat (unwrap_or 0 (json_as_u64 p (json_index p result ''ledger''))) mod 2 ^ 32)"
proof -
  have mod: "unat (ucast (n :: u64) :: u32) = unat n mod 2 ^ 32" for n
    by (simp add: unsigned_ucast_eq take_bit_eq_mod)
  from assms obtain result where tx: "tx =
      \<lparr>hash = h, ledger = ucast (unwrap_or 0 (json_as_u64 p (json_index p result ''ledger''))),
       success = (unwrap_or ''UNKNOWN'' (json_as_str p (json_index p result ''status'')) = ''SUCCESS''),
       error_detail = (if unwrap_or ''UNKNOWN'' (json_as_str p (json_index p result ''status'')) \<noteq> ''SUCCESS''
         then Some (unwrap_or '''' (json_as_str p (json_index p result ''resultMetaXdr''))) else None)\<rparr>"
    by (auto simp: get_transaction_def bind_c_Ok_iff Let_def return_c_def)
  have "success tx \<longleftrightarrow> json_as_str p (json_index p result ''status'') = Some ''SUCCESS''"
    by (cases "json_as_str p (json_index p result ''status'')") (simp_all add: tx)
  then show ?thesis using mod tx by auto
qed

end
