(* ===== verification/Engine_Pipeline.thy ===== *)
theory Engine_Pipeline
  imports Engine_InFlight Engine_Sandbox
begin

text \<open>
  The execution pipeline, \<open>the-engine/src/execution_pipeline.rs\<close>: build and sign, submit, wait for
  the confirmation, retry with capped backoff, and the in-flight bracket of \<open>dispatch\<close>.  The loop over
  \<open>0..=max_retries\<close> is a recursion on the attempts left; the confirmation loop may in principle run
  forever and is a partial function under the timeout.
\<close>

record ExecutionPipeline =
  pl_rpc :: RpcClient
  pl_keeper_address :: string
  pl_signing_key_bytes :: "u8 list"
  pl_anchor_contract_address :: string
  pl_confirmation_timeout :: Duration
  pl_retry_backoff_initial :: Duration
  pl_retry_backoff_max :: Duration
  pl_max_retries :: u32

fun role_debug :: "ExecutionRole \<Rightarrow> string" where
  "role_debug Designated = ''Designated''"
| "role_debug Secondary = ''Secondary''"
| "role_debug PostGraceRole = ''PostGrace''"

definition last_confirmed :: "'n Engine \<Rightarrow> i64 option" where
  "last_confirmed s = (if last_confirmed_ts s = 0 then None else Some (last_confirmed_ts s))"

definition parse_task_id :: "('n, 'v) Platform \<Rightarrow> string \<Rightarrow> TaskId" where
  "parse_task_id p hex_str =
     (let bytes = unwrap_or [] (hex_decode p hex_str); len = min (length bytes) 32
      in take len bytes @ drop len (replicate 32 0))"

definition build_signed_transaction ::
  "('n, 'v) Platform \<Rightarrow> ExecutionPipeline \<Rightarrow> RemoteTask \<Rightarrow> ExecutionRole \<Rightarrow> string" where
  "build_signed_transaction p pl task role =
     (let msg = ''execute_drip_split:contract='' @ pl_anchor_contract_address pl @
            '':task='' @ task_id_hex task @ '':keeper='' @ pl_keeper_address pl @
            '':role='' @ role_debug role;
          sig_hex = hex_encode p (sign p (pl_signing_key_bytes pl) msg)
      in ''SIGNED:contract='' @ pl_anchor_contract_address pl @ '':task='' @ task_id_hex task @
         '':keeper='' @ pl_keeper_address pl @ '':role='' @ role_debug role @ '':sig='' @ sig_hex)"

partial_function (option) confirmation_loop ::
  "('n, 'v) Platform \<Rightarrow> RpcClient \<Rightarrow> TxHash \<Rightarrow> 'n Engine \<Rightarrow>
     ((EngineError, TxResult) outcome \<times> 'n Engine) option" where
  "confirmation_loop p rpc h s =
     (case get_transaction p rpc h s of
        (Ok tx, s') \<Rightarrow>
          if success tx \<or> error_detail tx \<noteq> None then Some (Ok tx, s')
          else (case sleep_c p 2 s' of
              (Ok _, s'') \<Rightarrow> confirmation_loop p rpc h s''
            | (Err e, s'') \<Rightarrow> Some (Err e, s'')
            | (Panic msg, s'') \<Rightarrow> Some (Panic msg, s''))
      | (Err e, s') \<Rightarrow> Some (Err e, s')
      | (Panic msg, s') \<Rightarrow> Some (Panic msg, s'))"

declare confirmation_loop.simps [code]

text \<open>A loop that never ends is dropped by the timeout around it.\<close>

definition confirmation_future ::
  "('n, 'v) Platform \<Rightarrow> RpcClient \<Rightarrow> TxHash \<Rightarrow> ('n, TxResult) engine" where
  "confirmation_future p rpc h s = (case confirmation_loop p rpc h s of
       Some r \<Rightarrow> r
     | None \<Rightarrow> (Panic CANCELLED, s))"

definition wait_for_confirmation ::
  "('n, 'v) Platform \<Rightarrow> ExecutionPipeline \<Rightarrow> TxHash \<Rightarrow> ('n, TxResult) engine" where
  "wait_for_confirmation p pl h =
     bind_c (timeout_c p (pl_confirmation_timeout pl) (confirmation_future p (pl_rpc pl) h)) (\<lambda>result.
     case result of
       Some (Inr tx) \<Rightarrow> return_c tx
     | Some (Inl e) \<Rightarrow> throw_c e
     | None \<Rightarrow> throw_c (NonTransient (ConfirmationTimeout (pl_confirmation_timeout pl))))"

definition store_confirmed :: "('n, 'v) Platform \<Rightarrow> ('n, unit) engine" where
  "store_confirmed p = modify_c (\<lambda>s. s\<lparr>last_confirmed_ts :=
     (case unix_time p (net s) of Some d \<Rightarrow> d | None \<Rightarrow> 0)\<rparr>)"

text \<open>What follows an accepted submission: one confirmation, one log line, no retry.\<close>

definition after_submission ::
  "('n, 'v) Platform \<Rightarrow> ExecutionPipeline \<Rightarrow> RemoteTask \<Rightarrow> ExecutionRole \<Rightarrow> TxHash \<Rightarrow> ('n, unit) engine" where
  "after_submission p pl task role h =
     bind_c (try_c (wait_for_confirmation p pl h)) (\<lambda>r.
     case r of
       Inr result \<Rightarrow>
         if success result then
           bind_c (store_confirmed p) (\<lambda>_.
           log_c (ExecutionConfirmed (task_id_hex task) (pl_keeper_address pl) (ledger result) h role))
         else log_c (FailedOnChain (task_id_hex task) h (error_detail result))
     | Inl e \<Rightarrow>
         (case e of
            NonTransient (ConfirmationTimeout _) \<Rightarrow> log_c (ConfirmationTimedOut (task_id_hex task) h)
          | _ \<Rightarrow> log_c (ConfirmationError (task_id_hex task) e)))"

fun retry_from ::
  "('n, 'v) Platform \<Rightarrow> ExecutionPipeline \<Rightarrow> RemoteTask \<Rightarrow> ExecutionRole \<Rightarrow> nat \<Rightarrow> nat \<Rightarrow> Duration \<Rightarrow>
     ('n, unit) engine" where
  "retry_from p pl task role 0 attempt backoff = skip_c"
| "retry_from p pl task role (Suc left) attempt backoff =
     bind_c (try_c (send_transaction p (pl_rpc pl) (build_signed_transaction p pl task role))) (\<lambda>r.
     case r of
       Inr h \<Rightarrow> after_submission p pl task role h
     | Inl (Transient e) \<Rightarrow>
         if attempt = unat (pl_max_retries pl) then
           log_c (MaxRetriesReached (task_id_hex task) e attempt)
         else
           bind_c (log_c (Retrying (task_id_hex task) e attempt backoff)) (\<lambda>_.
           bind_c (sleep_c p backoff) (\<lambda>_.
           bind_c (unwrap_c DURATION_OVERFLOW (next_backoff (pl_retry_backoff_max pl) backoff)) (\<lambda>backoff'.
           retry_from p pl task role left (attempt + 1) backoff')))
     | Inl (NonTransient e) \<Rightarrow> log_c (NonTransientDropped (task_id_hex task) e))"

definition execute_with_retry ::
  "('n, 'v) Platform \<Rightarrow> ExecutionPipeline \<Rightarrow> RemoteTask \<Rightarrow> ExecutionRole \<Rightarrow> ('n, unit) engine" where
  "execute_with_retry p pl task role =
     retry_from p pl task role (unat (pl_max_retries pl) + 1) 0 (pl_retry_backoff_initial pl)"

definition dispatch ::
  "('n, 'v) Platform \<Rightarrow> ExecutionPipeline \<Rightarrow> RemoteTask \<Rightarrow> ExecutionRole \<Rightarrow> ('n, unit) engine" where
  "dispatch p pl task role =
     (let tid = parse_task_id p (task_id_hex task) in
      bind_c (gets_c (\<lambda>s. insert_task tid (in_flight s))) (\<lambda>(new, flying).
      bind_c (modify_c (\<lambda>s. s\<lparr>in_flight := flying\<rparr>)) (\<lambda>_.
      if \<not> new then skip_c
      else
        bind_c (execute_with_retry p pl task role) (\<lambda>_.
        modify_c (\<lambda>s. s\<lparr>in_flight := remove_task tid (in_flight s)\<rparr>)))))"

section \<open>The confirmation\<close>

text \<open>The confirmation loop always ends with its first answer.\<close>

lemma confirmation_loop_once: "confirmation_loop p rpc h s = Some (get_transaction p rpc h s)"
proof -
  have "success tx \<or> error_detail tx \<noteq> None" if "get_transaction p rpc h s = (Ok tx, s')" for tx s'
    using that by (auto simp: get_transaction_def bind_c_Ok_iff comp_simps Let_def)
  then show ?thesis
    by (subst confirmation_loop.simps) (auto split: prod.split outcome.split)
qed

lemma wait_for_confirmation_eq:
  "wait_for_confirmation p pl h =
     bind_c (timeout_c p (pl_confirmation_timeout pl) (get_transaction p (pl_rpc pl) h)) (\<lambda>result.
     case result of
       Some (Inr tx) \<Rightarrow> return_c tx
     | Some (Inl e) \<Rightarrow> throw_c e
     | None \<Rightarrow> throw_c (NonTransient (ConfirmationTimeout (pl_confirmation_timeout pl))))"
proof -
  have "confirmation_future p rpc h = get_transaction p rpc h" for rpc
    by (simp add: fun_eq_iff confirmation_future_def confirmation_loop_once)
  then show ?thesis by (simp add: wait_for_confirmation_def)
qed

lemma wait_for_confirmation_run:
  assumes free: "deadline s = None" and run: "wait_for_confirmation p pl h s = (r, s')"
  shows "\<exists>l n. s' = s\<lparr>log := log s @ RpcCall ''getTransaction'' # l, net := n\<rparr> \<and>
    set l \<subseteq> {RpcHttpError} \<and> (\<forall>msg. r \<noteq> Panic msg)"
proof -
  let ?s = "s\<lparr>deadline := Some (instant p (net s) + unat (pl_confirmation_timeout pl))\<rparr>"
  obtain x s1 where get: "get_transaction p (pl_rpc pl) h ?s = (x, s1)" by fastforce
  from get_log [OF get] obtain l n where s1: "s1 = ?s\<lparr>log := log s @ RpcCall ''getTransaction'' # l, net := n\<rparr>"
    and l: "set l \<subseteq> {RpcHttpError}" by auto
  have "s1\<lparr>deadline := None\<rparr> = s\<lparr>log := log s @ RpcCall ''getTransaction'' # l, net := n\<rparr>"
    unfolding s1 using free by simp
  moreover have "msg = CANCELLED" if "x = Panic msg" for msg
    using touches_requests(2) [of p "pl_rpc pl" h] get that unfolding touches_net_def by blast
  ultimately have "s' = s\<lparr>log := log s @ RpcCall ''getTransaction'' # l, net := n\<rparr> \<and> (\<forall>msg. r \<noteq> Panic msg)"
    using run get unfolding wait_for_confirmation_eq
    by (cases x) (auto simp: bind_c_def timeout_c_def comp_simps)
  with l show ?thesis by blast
qed

section \<open>Attempts and backoff\<close>

definition sends :: "LogEvent list \<Rightarrow> nat" where
  "sends l = length (filter (\<lambda>ev. ev = RpcCall ''sendTransaction'') l)"

fun backoff_of :: "LogEvent \<Rightarrow> nat list" where
  "backoff_of (Retrying _ _ _ d) = [unat d]"
| "backoff_of _ = []"

definition backoffs :: "LogEvent list \<Rightarrow> nat list" where
  "backoffs l = concat (map backoff_of l)"

lemma log_readings [simp]:
  "sends [] = 0" "sends (a # l) = (if a = RpcCall ''sendTransaction'' then 1 else 0) + sends l"
  "sends (l @ l') = sends l + sends l'"
  "backoffs [] = []" "backoffs (a # l) = backoff_of a @ backoffs l"
  "backoffs (l @ l') = backoffs l @ backoffs l'"
  by (simp_all add: sends_def backoffs_def)

lemma quiet_log: "set l \<subseteq> {RpcHttpError} \<Longrightarrow> sends l = 0 \<and> backoffs l = []"
  by (induction l) auto

text \<open>The state after an attempt: the log grew, the network moved, perhaps a confirmation was stored.\<close>

definition attempted :: "'n Engine \<Rightarrow> LogEvent list \<Rightarrow> 'n Engine \<Rightarrow> bool" where
  "attempted s l s' \<longleftrightarrow> log s' = log s @ l \<and> in_flight s' = in_flight s \<and> deadline s' = deadline s \<and>
     last_known_ledger s' = last_known_ledger s \<and> task_cache s' = task_cache s \<and>
     broadcasts s' = broadcasts s \<and>
     (last_confirmed_ts s' = last_confirmed_ts s \<or>
      (\<exists>i k q h role. ExecutionConfirmed i k q h role \<in> set l))"

lemma attempted_trans: "attempted s l s' \<Longrightarrow> attempted s' l' s'' \<Longrightarrow> attempted s (l @ l') s''"
  by (auto simp: attempted_def)

lemma after_submission_run:
  assumes free: "deadline s = None"
  shows "\<exists>l s'. after_submission p pl task role h s = (Ok (), s') \<and> attempted s l s' \<and>
    sends l = 0 \<and> backoffs l = []"
proof -
  obtain r s1 where run: "wait_for_confirmation p pl h s = (r, s1)" by fastforce
  from wait_for_confirmation_run [OF free run] obtain l n where
    s1: "s1 = s\<lparr>log := log s @ RpcCall ''getTransaction'' # l, net := n\<rparr>"
    and q: "sends l = 0" "backoffs l = []" and np: "\<forall>msg. r \<noteq> Panic msg"
    using quiet_log by blast
  have one: "attempted s (RpcCall ''getTransaction'' # l @ [ev]) (s1\<lparr>log := log s1 @ [ev]\<rparr>)" for ev
    by (simp add: attempted_def s1)
  have stored: "attempted s (RpcCall ''getTransaction'' # l @ [ExecutionConfirmed i k g h role])
      (s1\<lparr>last_confirmed_ts := ts, log := log s1 @ [ExecutionConfirmed i k g h role]\<rparr>)" for ts i k g h role
    by (simp add: attempted_def s1) blast
  show ?thesis
  proof (cases r)
    case (Ok tx)
    show ?thesis
    proof (cases "success tx")
      case True
      let ?ev = "ExecutionConfirmed (task_id_hex task) (pl_keeper_address pl) (ledger tx) h role"
      from True Ok run stored q show ?thesis
        by (intro exI [of _ "RpcCall ''getTransaction'' # l @ [?ev]"])
          (simp add: after_submission_def comp_simps store_confirmed_def)
    next
      case False
      with Ok run one [of "FailedOnChain (task_id_hex task) h (error_detail tx)"] q show ?thesis
        by (intro exI [of _ "RpcCall ''getTransaction'' # l @ [FailedOnChain (task_id_hex task) h (error_detail tx)]"])
          (auto simp: after_submission_def comp_simps)
    qed
  next
    case (Err e)
    obtain ev where ev: "after_submission p pl task role h s = (Ok (), s1\<lparr>log := log s1 @ [ev]\<rparr>)"
      "sends [ev] = 0" "backoffs [ev] = []"
    proof (cases "\<exists>d. e = NonTransient (ConfirmationTimeout d)")
      case True
      with Err run that [of "ConfirmationTimedOut (task_id_hex task) h"] show ?thesis
        by (auto simp: after_submission_def comp_simps)
    next
      case False
      with Err run that [of "ConfirmationError (task_id_hex task) e"] show ?thesis
        by (cases e) (auto simp: after_submission_def comp_simps split: NonTransientError.splits)
    qed
    with one [of ev] q show ?thesis
      by (intro exI [of _ "RpcCall ''getTransaction'' # l @ [ev]"]) auto
  qed (use np in simp)
qed

lemma try_send_run:
  fixes p :: "('n, 'v) Platform"
  assumes free: "deadline s = None"
  obtains r l s1 where "(try_c (send_transaction p rpc xdr) :: ('n, EngineError + TxHash) engine) s = (Ok r, s1)"
    and "attempted s (RpcCall ''sendTransaction'' # l) s1" and "sends l = 0" and "backoffs l = []"
    and "case r of Inl e \<Rightarrow> send_transaction p rpc xdr s = (Err e, s1)
          | Inr h \<Rightarrow> send_transaction p rpc xdr s = (Ok h, s1)"
proof -
  obtain x s1 where run: "send_transaction p rpc xdr s = (x, s1)" by fastforce
  have np: "\<forall>msg. x \<noteq> Panic msg"
    using touches_free [OF touches_requests(1) free run] by blast
  from send_log [OF run] obtain l n where
    "s1 = s\<lparr>log := log s @ RpcCall ''sendTransaction'' # l, net := n\<rparr>" "set l \<subseteq> {RpcHttpError}" by blast
  then have "attempted s (RpcCall ''sendTransaction'' # l) s1" "sends l = 0" "backoffs l = []"
    using quiet_log by (simp_all add: attempted_def)
  with that run np show ?thesis by (cases x) (auto simp: comp_simps)
qed

text \<open>Logging a retry and sleeping before it.\<close>

lemma attempted_retrying:
  assumes "attempted s l s1"
  shows "attempted s (l @ [Retrying i e a d]) (s1\<lparr>log := log s1 @ [Retrying i e a d], net := n\<rparr>)"
  using assms by (auto simp: attempted_def)

lemma attempted_line:
  assumes "attempted s l s1"
  shows "attempted s (l @ [ev]) (s1\<lparr>log := log s1 @ [ev]\<rparr>)"
  using assms by (auto simp: attempted_def)

lemma attempted_free: "attempted s l s' \<Longrightarrow> deadline s' = deadline s"
  by (simp add: attempted_def)

lemma retry_run:
  fixes p :: "('a, 'v) Platform"
  assumes cap: "unat (pl_retry_backoff_max pl) \<le> 2 ^ 62"
  shows "deadline s = None \<Longrightarrow> unat backoff \<le> unat (pl_retry_backoff_max pl) \<Longrightarrow>
    \<exists>l s'. retry_from p pl task role left attempt backoff s = (Ok (), s') \<and> attempted s l s' \<and>
      sends l \<le> left \<and> (\<forall>d \<in> set (backoffs l). d \<le> unat (pl_retry_backoff_max pl))"
proof (induction left arbitrary: attempt backoff s)
  case 0
  then show ?case by (auto simp: comp_simps attempted_def intro!: exI [of _ "[]"])
next
  case (Suc left)
  let ?xdr = "build_signed_transaction p pl task role"
  from try_send_run [OF Suc.prems(1), of p "pl_rpc pl" ?xdr] obtain r l s1 where
    run: "(try_c (send_transaction p (pl_rpc pl) ?xdr) :: ('a, EngineError + TxHash) engine) s = (Ok r, s1)"
    and att: "attempted s (RpcCall ''sendTransaction'' # l) s1" and q: "sends l = 0" "backoffs l = []"
    by metis
  have free: "deadline s1 = None" using attempted_free [OF att] Suc.prems(1) by simp
  consider (ok) h where "r = Inr h" | (last) e where "r = Inl (Transient e)" "attempt = unat (pl_max_retries pl)"
    | (again) e where "r = Inl (Transient e)" "attempt \<noteq> unat (pl_max_retries pl)"
    | (drop) e where "r = Inl (NonTransient e)"
    by (metis EngineError.exhaust sum.exhaust)
  then show ?case
  proof cases
    case ok
    with after_submission_run [OF free, of p pl task role h] obtain l' s' where
      "after_submission p pl task role h s1 = (Ok (), s')" "attempted s1 l' s'" "sends l' = 0" "backoffs l' = []"
      by blast
    with ok run q attempted_trans [OF att] show ?thesis
      by (intro exI [of _ "(RpcCall ''sendTransaction'' # l) @ l'"]) (simp add: comp_simps)
  next
    case last
    with run q attempted_line [OF att] show ?thesis
      by (intro exI [of _ "(RpcCall ''sendTransaction'' # l) @ [MaxRetriesReached (task_id_hex task) e attempt]"])
        (simp add: comp_simps)
  next
    case drop
    with run q attempted_line [OF att] show ?thesis
      by (intro exI [of _ "(RpcCall ''sendTransaction'' # l) @ [NonTransientDropped (task_id_hex task) e]"])
        (simp add: comp_simps)
  next
    case again
    let ?ev = "Retrying (task_id_hex task) e attempt backoff"
    let ?s2 = "s1\<lparr>log := log s1 @ [?ev], net := sleep_for p backoff (net s1)\<rparr>"
    from backoff.step_below [OF cap Suc.prems(2)] obtain b where
      b: "next_backoff (pl_retry_backoff_max pl) backoff = Some b" "unat b \<le> unat (pl_retry_backoff_max pl)"
      by auto
    with Suc.IH [of ?s2 b "attempt + 1"] free obtain l' s' where
      rest: "retry_from p pl task role left (attempt + 1) b ?s2 = (Ok (), s')" "attempted ?s2 l' s'"
        "sends l' \<le> left" "\<forall>d \<in> set (backoffs l'). d \<le> unat (pl_retry_backoff_max pl)" by auto
    have "retry_from p pl task role (Suc left) attempt backoff s = (Ok (), s')"
      using again run free b rest(1) by (simp add: comp_simps)
    with rest q Suc.prems(2) attempted_trans [OF attempted_retrying [OF att] rest(2)] show ?thesis
      by (intro exI [of _ "((RpcCall ''sendTransaction'' # l) @ [?ev]) @ l'"]) auto
  qed
qed

text \<open>When every submission fails transiently the loop uses all its attempts.\<close>

definition always_transient :: "('n, 'v) Platform \<Rightarrow> ExecutionPipeline \<Rightarrow> string \<Rightarrow> bool" where
  "always_transient p pl xdr \<longleftrightarrow> (\<forall>s. deadline s = None \<longrightarrow>
     (\<exists>e s'. send_transaction p (pl_rpc pl) xdr s = (Err (Transient e), s')))"

lemma try_send_fails:
  fixes p :: "('n, 'v) Platform"
  assumes free: "deadline s = None" and fail: "always_transient p pl xdr"
  obtains e l s1 where
    "(try_c (send_transaction p (pl_rpc pl) xdr) :: ('n, EngineError + TxHash) engine) s =
       (Ok (Inl (Transient e)), s1)"
    and "attempted s (RpcCall ''sendTransaction'' # l) s1" and "sends l = 0" and "backoffs l = []"
    and "net s1 = submit_net p (pl_rpc pl) xdr (net s)"
proof -
  from fail free obtain e s1 where run: "send_transaction p (pl_rpc pl) xdr s = (Err (Transient e), s1)"
    unfolding always_transient_def by blast
  with try_send_run [OF free, of p "pl_rpc pl" xdr] that [of e s1] send_net [OF free run] show ?thesis
    by (auto simp: comp_simps)
qed

text \<open>
  The network under a retry schedule: submit, then wait and submit again for each duration of the list.
\<close>

fun retry_net :: "('n, 'v) Platform \<Rightarrow> RpcClient \<Rightarrow> string \<Rightarrow> nat list \<Rightarrow> 'n \<Rightarrow> 'n" where
  "retry_net p rpc xdr [] n = submit_net p rpc xdr n"
| "retry_net p rpc xdr (d # ds) n = retry_net p rpc xdr ds (sleep_for p (of_nat d) (submit_net p rpc xdr n))"

lemma backoff_tail:
  "map (\<lambda>i. min (b * 2 ^ i) c) [0..<Suc n] = min b c # map (\<lambda>i. min (min (b * 2) c * 2 ^ i) c) [0..<n]"
  for b c :: nat
  unfolding backoff.capped_twice by (simp add: map_upt_Suc del: upt_Suc)

lemma retry_exhausts:
  fixes p :: "('a, 'v) Platform"
  assumes cap: "unat (pl_retry_backoff_max pl) \<le> 2 ^ 62"
    and fail: "always_transient p pl (build_signed_transaction p pl task role)"
  shows "deadline s = None \<Longrightarrow> unat backoff \<le> unat (pl_retry_backoff_max pl) \<Longrightarrow>
    attempt + left = unat (pl_max_retries pl) \<Longrightarrow>
    \<exists>l e s'. retry_from p pl task role (Suc left) attempt backoff s = (Ok (), s') \<and>
      attempted s (l @ [MaxRetriesReached (task_id_hex task) e (unat (pl_max_retries pl))]) s' \<and>
      sends l = Suc left \<and>
      backoffs l = map (\<lambda>i. min (unat backoff * 2 ^ i) (unat (pl_retry_backoff_max pl))) [0..<left] \<and>
      net s' = retry_net p (pl_rpc pl) (build_signed_transaction p pl task role) (backoffs l) (net s)"
proof (induction left arbitrary: attempt backoff s)
  case (0 attempt backoff s)
  let ?xdr = "build_signed_transaction p pl task role"
  from try_send_fails [OF 0(1) fail] obtain e l s1 where
    run: "(try_c (send_transaction p (pl_rpc pl) ?xdr) :: ('a, EngineError + TxHash) engine) s =
      (Ok (Inl (Transient e)), s1)"
    and att: "attempted s (RpcCall ''sendTransaction'' # l) s1" and q: "sends l = 0" "backoffs l = []"
    and posted: "net s1 = submit_net p (pl_rpc pl) ?xdr (net s)"
    by metis
  from run q posted 0(3) attempted_line [OF att] show ?case
    by (intro exI [of _ "RpcCall ''sendTransaction'' # l"] exI [of _ e]) (simp add: comp_simps)
next
  case (Suc left)
  let ?xdr = "build_signed_transaction p pl task role"
  from try_send_fails [OF Suc.prems(1) fail] obtain e l s1 where
    run: "(try_c (send_transaction p (pl_rpc pl) ?xdr) :: ('a, EngineError + TxHash) engine) s =
      (Ok (Inl (Transient e)), s1)"
    and att: "attempted s (RpcCall ''sendTransaction'' # l) s1" and q: "sends l = 0" "backoffs l = []"
    and posted: "net s1 = submit_net p (pl_rpc pl) ?xdr (net s)"
    by metis
  have free: "deadline s1 = None" using attempted_free [OF att] Suc.prems(1) by simp
  let ?ev = "Retrying (task_id_hex task) e attempt backoff"
  let ?s2 = "s1\<lparr>log := log s1 @ [?ev], net := sleep_for p backoff (net s1)\<rparr>"
  from backoff.step_below [OF cap Suc.prems(2)] obtain b where
    b: "next_backoff (pl_retry_backoff_max pl) backoff = Some b"
    "unat b = min (unat backoff * 2) (unat (pl_retry_backoff_max pl))" by auto
  with Suc.IH [of ?s2 b "attempt + 1"] free Suc.prems(3) obtain l' e' s' where
    rest: "retry_from p pl task role (Suc left) (attempt + 1) b ?s2 = (Ok (), s')"
      "attempted ?s2 (l' @ [MaxRetriesReached (task_id_hex task) e' (unat (pl_max_retries pl))]) s'"
      "sends l' = Suc left"
      "backoffs l' = map (\<lambda>i. min (unat b * 2 ^ i) (unat (pl_retry_backoff_max pl))) [0..<left]"
      "net s' = retry_net p (pl_rpc pl) ?xdr (backoffs l') (sleep_for p backoff (net s1))" by auto
  have ret: "retry_from p pl task role (Suc (Suc left)) attempt backoff s = (Ok (), s')"
    using run free b rest(1) Suc.prems(3) by (simp add: comp_simps)
  have "backoffs ((RpcCall ''sendTransaction'' # l) @ [?ev] @ l') =
      map (\<lambda>i. min (unat backoff * 2 ^ i) (unat (pl_retry_backoff_max pl))) [0..<Suc left]"
    unfolding backoff_tail using q rest(4) b(2) Suc.prems(2) by simp
  moreover have "net s' = retry_net p (pl_rpc pl) ?xdr (backoffs ((RpcCall ''sendTransaction'' # l) @ [?ev] @ l')) (net s)"
    using rest(5) posted q by simp
  ultimately show ?case
    using rest q ret attempted_trans [OF attempted_retrying [OF att] rest(2)]
    by (intro exI [of _ "(RpcCall ''sendTransaction'' # l) @ [?ev] @ l'"] exI [of _ e'] exI [of _ s']) simp
qed

section \<open>The in-flight bracket\<close>

lemma insert_remove_new: "i |\<notin>| s \<Longrightarrow> remove_task i (finsert i s) = s"
  by (auto simp: remove_task_def)

lemma dispatch_flying:
  "contains_task (parse_task_id p (task_id_hex task)) (in_flight s) \<Longrightarrow> dispatch p pl task role s = (Ok (), s)"
  by (simp add: dispatch_def Let_def comp_simps insert_task_def contains_task_def finsert_absorb)

lemma dispatch_run:
  assumes free: "deadline s = None"
    and cap: "unat (pl_retry_backoff_max pl) \<le> 2 ^ 62"
    and ini: "unat (pl_retry_backoff_initial pl) \<le> unat (pl_retry_backoff_max pl)"
  shows "\<exists>l s'. dispatch p pl task role s = (Ok (), s') \<and> attempted s l s' \<and>
    sends l \<le> unat (pl_max_retries pl) + 1 \<and> (\<forall>d \<in> set (backoffs l). d \<le> unat (pl_retry_backoff_max pl))"
proof (cases "contains_task (parse_task_id p (task_id_hex task)) (in_flight s)")
  case True
  then show ?thesis
    by (intro exI [of _ "[]"] exI [of _ s]) (simp add: dispatch_flying attempted_def)
next
  case False
  let ?i = "parse_task_id p (task_id_hex task)"
  let ?s = "s\<lparr>in_flight := finsert ?i (in_flight s)\<rparr>"
  from retry_run [OF cap _ ini, of ?s p task role "unat (pl_max_retries pl) + 1" 0] free
  obtain l s1 where run: "execute_with_retry p pl task role ?s = (Ok (), s1)" and att: "attempted ?s l s1"
    and bounds: "sends l \<le> unat (pl_max_retries pl) + 1"
      "\<forall>d \<in> set (backoffs l). d \<le> unat (pl_retry_backoff_max pl)"
    unfolding execute_with_retry_def by auto
  let ?s' = "s1\<lparr>in_flight := remove_task ?i (in_flight s1)\<rparr>"
  have "dispatch p pl task role s = (Ok (), ?s')"
    using False run by (simp add: dispatch_def Let_def comp_simps insert_task_def contains_task_def)
  moreover have "attempted s l ?s'"
    using att False by (auto simp: attempted_def insert_remove_new contains_task_def)
  ultimately show ?thesis using bounds by blast
qed

section \<open>Properties\<close>

definition demo_pipeline :: "u32 \<Rightarrow> ExecutionPipeline" where
  "demo_pipeline retries =
     \<lparr>pl_rpc = demo_rpc, pl_keeper_address = ''GKEEPER'', pl_signing_key_bytes = [1, 2],
      pl_anchor_contract_address = ''CANCHOR'', pl_confirmation_timeout = 60,
      pl_retry_backoff_initial = 1, pl_retry_backoff_max = 60, pl_max_retries = retries\<rparr>"

definition demo_task :: RemoteTask where
  "demo_task = \<lparr>task_id_hex = ''ab'', rt_target_drip_list = ''CDRIPS'', rt_execution_interval_ledgers = 200,
     rt_next_allowed_execution = 300, rt_micro_reward_per_run = 5, rt_designated_keeper = ''GOTHER''\<rparr>"

definition unreachable_platform :: "(demo_net, demo_json) Platform" where
  "unreachable_platform = (demo_platform Dev)\<lparr>post := (\<lambda>url c t body n.
     (SendError \<lparr>is_timeout = False, is_connect = True, error_text = ''''\<rparr>, n))\<rparr>"

lemma unreachable_transient: "always_transient unreachable_platform pl xdr"
  by (auto simp: always_transient_def send_transaction_def rpc_call_def Let_def comp_simps
      unreachable_platform_def classify_send_error_def bind_c_def)

text \<open>
  C18: the retry schedule.  When every submission fails transiently, the engine submits
  \<open>max_retries + 1\<close> times, waits \<open>min (initial * 2^i) max\<close> seconds before retry \<open>i + 1\<close>, reports
  that it gives up and returns.  The waits are real and not only announced: the network ends in the
  state that the submissions, each with its body, and in between sleeps of exactly these lengths lead
  to (\<open>retry_net\<close>), with nothing else done to it.
\<close>
theorem retry_schedule:
  assumes "deadline s = None" and "unat (pl_retry_backoff_max pl) \<le> 60"
    and "unat (pl_retry_backoff_initial pl) \<le> unat (pl_retry_backoff_max pl)"
    and "always_transient p pl (build_signed_transaction p pl task role)"
  shows "\<exists>l e s'. execute_with_retry p pl task role s = (Ok (), s') \<and>
    log s' = log s @ l @ [MaxRetriesReached (task_id_hex task) e (unat (pl_max_retries pl))] \<and>
    sends l = unat (pl_max_retries pl) + 1 \<and>
    (let waits = map (\<lambda>i. min (unat (pl_retry_backoff_initial pl) * 2 ^ i) (unat (pl_retry_backoff_max pl)))
           [0..<unat (pl_max_retries pl)]
     in backoffs l = waits \<and>
        net s' = retry_net p (pl_rpc pl) (build_signed_transaction p pl task role) waits (net s))"
proof -
  have "unat (pl_retry_backoff_max pl) \<le> 2 ^ 62" using assms(2) by simp
  from retry_exhausts [OF this assms(4,1,3), of 0 "unat (pl_max_retries pl)"] show ?thesis
    unfolding execute_with_retry_def attempted_def Let_def by auto
qed

text \<open>On the clock of the sandbox the three waits of a pipeline with three retries take seven seconds.\<close>

theorem retry_schedule_witness:
  "\<exists>l e s'. execute_with_retry unreachable_platform (demo_pipeline 3) demo_task Secondary (demo_engine []) = (Ok (), s') \<and>
     log s' = l @ [MaxRetriesReached ''ab'' e 3] \<and> sends l = 4 \<and> backoffs l = [1, 2, 4] \<and>
     time (net s') = time (net (demo_engine [])) + 7"
  using retry_schedule [of "demo_engine []" "demo_pipeline 3" unreachable_platform demo_task Secondary]
    unreachable_transient
  by (auto simp: demo_engine_def demo_pipeline_def demo_task_def upt_rec submit_net_def
      unreachable_platform_def demo_platform_def)

text \<open>
  The confirmation loop ends, with its first answer: waiting for a confirmation issues exactly one
  \<open>getTransaction\<close> request and never panics.
\<close>

lemma confirmation_asks_once:
  assumes "deadline s = None"
  shows "\<exists>r l n. wait_for_confirmation p pl h s =
      (r, s\<lparr>log := log s @ RpcCall ''getTransaction'' # l, net := n\<rparr>) \<and>
    set l \<subseteq> {RpcHttpError} \<and> (\<forall>msg. r \<noteq> Panic msg) \<and> (\<exists>y. confirmation_loop p (pl_rpc pl) h s = Some y)"
proof -
  obtain r s' where run: "wait_for_confirmation p pl h s = (r, s')" by fastforce
  from wait_for_confirmation_run [OF assms run] run show ?thesis
    by (auto simp: confirmation_loop_once)
qed

text \<open>
  C35: a pending transaction is reported as failed.  When the first \<open>getTransaction\<close> answer after an
  accepted submission arrives in time and carries any status but \<open>SUCCESS\<close> (also \<open>NOT_FOUND\<close>, which the
  RPC gives until the transaction is in a ledger), the engine asks no second time and waits no
  further: it logs an on-chain failure and drops the task, and the network is left as that one
  request left it.  The polling loop around \<open>get_transaction\<close> never goes round.
\<close>
theorem pending_reported_as_failed:
  assumes "deadline s = None"
    and "send_transaction p (pl_rpc pl) (build_signed_transaction p pl task role) s = (Ok h, s1)"
    and "post p (endpoint (pl_rpc pl)) (connect_timeout (pl_rpc pl)) (request_timeout (pl_rpc pl))
           (ask_body p h) (net s1) = (Response True (Inr json), n)"
    and "instant p n \<le> instant p (net s1) + unat (pl_confirmation_timeout pl)"
    and "json_get p json ''error'' = None"
    and "json_as_str p (json_index p (json_index p json ''result'') ''status'') \<noteq> Some ''SUCCESS''"
  shows "execute_with_retry p pl task role s =
    (Ok (), s1\<lparr>log := log s1 @ [RpcCall ''getTransaction'',
       FailedOnChain (task_id_hex task) h (Some (unwrap_or ''''
         (json_as_str p (json_index p (json_index p json ''result'') ''resultMetaXdr''))))],
       net := n\<rparr>)"
proof -
  let ?result = "json_index p json ''result''"
  let ?tx = "\<lparr>hash = h, ledger = ucast (unwrap_or 0 (json_as_u64 p (json_index p ?result ''ledger''))),
      success = False, error_detail = Some (unwrap_or '''' (json_as_str p (json_index p ?result ''resultMetaXdr'')))\<rparr>"
  have free: "deadline s1 = None"
    using touches_free [OF touches_requests(1) assms(1,2)] extends_frame(1) [of _ s s1] assms(1) by simp
  have st: "unwrap_or ''UNKNOWN'' (json_as_str p (json_index p ?result ''status'')) \<noteq> ''SUCCESS''"
    using assms(6) by (cases "json_as_str p (json_index p ?result ''status'')") simp_all
  have "get_transaction p (pl_rpc pl) h (s1\<lparr>deadline := Some t\<rparr>) =
      (Ok ?tx, s1\<lparr>deadline := Some t, log := log s1 @ [RpcCall ''getTransaction''], net := n\<rparr>)"
    if "instant p n \<le> t" for t
    using that assms(3,5) st
    by (simp add: get_transaction_def rpc_call_def Let_def comp_simps bind_c_def log_c_def await_c_def
        ask_body_def request_body_def return_c_def)
  from this [OF assms(4)] free have "wait_for_confirmation p pl h s1 =
      (Ok ?tx, s1\<lparr>log := log s1 @ [RpcCall ''getTransaction''], net := n\<rparr>)"
    unfolding wait_for_confirmation_eq by (simp add: timeout_c_def comp_simps bind_c_def)
  with assms(2) show ?thesis
    by (simp add: execute_with_retry_def after_submission_def comp_simps)
qed

theorem pending_reported_as_failed_witness:
  "\<exists>s'. execute_with_retry (demo_platform Dev) (demo_pipeline 3) demo_task Secondary
     (demo_engine [result_reply [(''hash'', JText ''h'')], result_reply [(''status'', JText ''NOT_FOUND'')],
        result_reply [(''status'', JText ''SUCCESS'')]]) =
     (Ok (), s') \<and> FailedOnChain ''ab'' ''h'' (Some '''') \<in> set (log s') \<and>
     script (net s') = [result_reply [(''status'', JText ''SUCCESS'')]]"
proof -
  let ?p = "demo_platform Dev" and ?pl = "demo_pipeline 3"
  let ?late = "[result_reply [(''status'', JText ''SUCCESS'')]]"
  let ?s = "demo_engine (result_reply [(''hash'', JText ''h'')] # result_reply [(''status'', JText ''NOT_FOUND'')] # ?late)"
  let ?s1 = "(demo_engine [])\<lparr>log := [RpcCall ''sendTransaction''],
    net := \<lparr>script = result_reply [(''status'', JText ''NOT_FOUND'')] # ?late, time = 1001\<rparr>\<rparr>"
  have send: "send_transaction ?p (pl_rpc ?pl) xdr ?s = (Ok ''h'', ?s1)" for xdr
    by (simp add: send_transaction_def rpc_call_def Let_def comp_simps demo_defs demo_pipeline_def bind_c_def)
  have free: "deadline ?s = None" by (simp add: demo_engine_def)
  from pending_reported_as_failed [OF free send, where n = "\<lparr>script = ?late, time = 1002\<rparr>"
      and json = "JObj [(''result'', JObj [(''status'', JText ''NOT_FOUND'')])]"]
  show ?thesis by (simp add: demo_task_def demo_defs demo_pipeline_def)
qed

end
