(* ===== verification/Engine_Attempts.thy ===== *)
theory Engine_Attempts
  imports Engine_Pipeline
begin

text \<open>
  The protocol of one dispatch, abstracted from \<open>execution_pipeline.rs\<close>: a state machine over the
  events a dispatch reports.  Attempts are numbered; each submits once; a transient failure is retried
  after a wait that doubles up to the cap until the attempts are used up; a permanent failure ends the
  dispatch; an accepted submission is asked for once and ends it with one of four verdicts.  The
  pipeline's events are a complete run of this machine, whatever the network does.
\<close>

section \<open>The machine\<close>

datatype attempt_phase = Submitting nat | Judging nat | Confirming | Finished

inductive attempt_step ::
  "ExecutionPipeline \<Rightarrow> RemoteTask \<Rightarrow> ExecutionRole \<Rightarrow> attempt_phase \<Rightarrow> LogEvent \<Rightarrow> attempt_phase \<Rightarrow> bool"
  for pl task role where
  submit: "attempt_step pl task role (Submitting n) (RpcCall ''sendTransaction'') (Judging n)"
| send_noise: "attempt_step pl task role (Judging n) RpcHttpError (Judging n)"
| retry: "n < unat (pl_max_retries pl) \<Longrightarrow>
    unat d = min (unat (pl_retry_backoff_initial pl) * 2 ^ n) (unat (pl_retry_backoff_max pl)) \<Longrightarrow>
    attempt_step pl task role (Judging n) (Retrying (task_id_hex task) e n d) (Submitting (Suc n))"
| exhausted: "attempt_step pl task role (Judging (unat (pl_max_retries pl)))
    (MaxRetriesReached (task_id_hex task) e (unat (pl_max_retries pl))) Finished"
| refused: "attempt_step pl task role (Judging n) (NonTransientDropped (task_id_hex task) e') Finished"
| accepted: "attempt_step pl task role (Judging n) (RpcCall ''getTransaction'') Confirming"
| ask_noise: "attempt_step pl task role Confirming RpcHttpError Confirming"
| confirmed: "attempt_step pl task role Confirming
    (ExecutionConfirmed (task_id_hex task) (pl_keeper_address pl) q h role) Finished"
| failed: "attempt_step pl task role Confirming (FailedOnChain (task_id_hex task) h detail) Finished"
| timed_out: "attempt_step pl task role Confirming (ConfirmationTimedOut (task_id_hex task) h) Finished"
| unknown: "attempt_step pl task role Confirming (ConfirmationError (task_id_hex task) err) Finished"

inductive attempt_run ::
  "ExecutionPipeline \<Rightarrow> RemoteTask \<Rightarrow> ExecutionRole \<Rightarrow> attempt_phase \<Rightarrow> LogEvent list \<Rightarrow> attempt_phase \<Rightarrow> bool"
  for pl task role where
  stop: "attempt_run pl task role x [] x"
| event: "attempt_step pl task role x ev y \<Longrightarrow> attempt_run pl task role y l z \<Longrightarrow>
    attempt_run pl task role x (ev # l) z"

inductive_cases attempt_stepE: "attempt_step pl task role x ev y"
inductive_simps attempt_run_simps: "attempt_run pl task role x [] y" "attempt_run pl task role x (ev # l) y"

lemma attempt_run_append:
  "attempt_run pl task role x l y \<Longrightarrow> attempt_run pl task role y l' z \<Longrightarrow> attempt_run pl task role x (l @ l') z"
  by (induction rule: attempt_run.induct) (auto intro: attempt_run.intros)

lemma attempt_run_noise:
  "set l \<subseteq> {RpcHttpError} \<Longrightarrow> x = Judging n \<or> x = Confirming \<Longrightarrow> attempt_run pl task role x l x"
  by (induction l) (auto intro: attempt_run.intros attempt_step.intros)

section \<open>What the machine guarantees\<close>

text \<open>
  At most \<open>max_retries + 1\<close> submissions; nothing follows the event that ends a dispatch; a confirmation
  is the last event when there is one.
\<close>

fun attempts_left :: "nat \<Rightarrow> attempt_phase \<Rightarrow> nat" where
  "attempts_left m (Submitting n) = Suc m - n"
| "attempts_left m (Judging n) = m - n"
| "attempts_left m _ = 0"

definition phase_ok :: "nat \<Rightarrow> attempt_phase \<Rightarrow> bool" where
  "phase_ok m x \<longleftrightarrow> (\<forall>n. x = Submitting n \<or> x = Judging n \<longrightarrow> n \<le> m)"

lemma attempt_run_sends:
  "attempt_run pl task role x l y \<Longrightarrow> phase_ok (unat (pl_max_retries pl)) x \<Longrightarrow>
     sends l + attempts_left (unat (pl_max_retries pl)) y \<le> attempts_left (unat (pl_max_retries pl)) x"
proof (induction rule: attempt_run.induct)
  case (event x ev y l z)
  from event.hyps(1) event.IH event.prems show ?case
    by (cases rule: attempt_step.cases) (auto simp: phase_ok_def)
qed simp

lemma finished_stays: "attempt_run pl task role Finished l y \<Longrightarrow> l = [] \<and> y = Finished"
  by (erule attempt_run.cases) (auto elim: attempt_stepE)

fun is_confirmation :: "LogEvent \<Rightarrow> bool" where
  "is_confirmation (ExecutionConfirmed _ _ _ _ _) = True"
| "is_confirmation _ = False"

lemma confirmation_last:
  "attempt_run pl task role x l y \<Longrightarrow> ev \<in> set l \<Longrightarrow> is_confirmation ev \<Longrightarrow> y = Finished \<and> last l = ev"
proof (induction rule: attempt_run.induct)
  case (event x ev' y l z)
  show ?case
  proof (cases "ev = ev'")
    case True
    from event.hyps(1) True event.prems(2) have "y = Finished"
      by (cases rule: attempt_step.cases) auto
    with event.hyps(2) True show ?thesis by (auto dest: finished_stays)
  qed (use event in auto)
qed simp

section \<open>The pipeline follows the machine\<close>

definition stamp :: "('n, 'v) Platform \<Rightarrow> 'n Engine \<Rightarrow> i64" where
  "stamp p s = (case unix_time p (net s) of Some d \<Rightarrow> d | None \<Rightarrow> 0)"

text \<open>\<open>follows p pl task role x l s s'\<close>: from phase \<open>x\<close> the events \<open>l\<close> complete the dispatch, and the
  timestamp is the clock's when the last of them is a confirmation, unchanged otherwise.\<close>

definition follows ::
  "('n, 'v) Platform \<Rightarrow> ExecutionPipeline \<Rightarrow> RemoteTask \<Rightarrow> ExecutionRole \<Rightarrow> attempt_phase \<Rightarrow>
     LogEvent list \<Rightarrow> 'n Engine \<Rightarrow> 'n Engine \<Rightarrow> bool" where
  "follows p pl task role x l s s' \<longleftrightarrow> log s' = log s @ l \<and> l \<noteq> [] \<and>
     attempt_run pl task role x l Finished \<and>
     last_confirmed_ts s' = (if is_confirmation (last l) then stamp p s' else last_confirmed_ts s)"

lemma follows_event:
  assumes "attempt_run pl task role x l y" and "follows p pl task role y l' s1 s'"
    and "log s1 = log s @ l" and "last_confirmed_ts s1 = last_confirmed_ts s"
  shows "follows p pl task role x (l @ l') s s'"
  using assms attempt_run_append by (auto simp: follows_def)

lemma follows_end:
  assumes "attempt_step pl task role x ev Finished" and "log s' = log s @ [ev]"
    and "last_confirmed_ts s' = (if is_confirmation ev then stamp p s' else last_confirmed_ts s)"
  shows "follows p pl task role x [ev] s s'"
  using assms by (auto simp: follows_def attempt_run_simps)

lemma follows_line:
  assumes "m s = (Ok (), s1\<lparr>log := log s1 @ [ev]\<rparr>)" and "attempt_step pl task role x ev Finished"
    and "\<not> is_confirmation ev"
  shows "\<exists>ev s'. m s = (Ok (), s') \<and> follows p pl task role x [ev] s1 s'"
  by (intro exI conjI, rule assms(1), rule follows_end, rule assms(2)) (use assms(3) in simp_all)

lemma after_submission_follows:
  assumes free: "deadline s = None"
  shows "\<exists>l s'. after_submission p pl task role h s = (Ok (), s') \<and> follows p pl task role (Judging n) l s s'"
proof -
  obtain r s1 where run: "wait_for_confirmation p pl h s = (r, s1)" by fastforce
  from wait_for_confirmation_run [OF free run] obtain l m where
    s1: "s1 = s\<lparr>log := log s @ RpcCall ''getTransaction'' # l, net := m\<rparr>"
    and noise: "set l \<subseteq> {RpcHttpError}" and np: "\<forall>msg. r \<noteq> Panic msg" by blast
  have start: "attempt_run pl task role (Judging n) (RpcCall ''getTransaction'' # l) Confirming"
    using noise by (intro attempt_run.event [OF attempt_step.accepted] attempt_run_noise) simp_all
  have log1: "log s1 = log s @ RpcCall ''getTransaction'' # l" "last_confirmed_ts s1 = last_confirmed_ts s"
    by (simp_all add: s1)
  have "\<exists>ev s'. after_submission p pl task role h s = (Ok (), s') \<and> follows p pl task role Confirming [ev] s1 s'"
  proof (cases r)
    case (Ok tx)
    show ?thesis
    proof (cases "success tx")
      case True
      let ?ev = "ExecutionConfirmed (task_id_hex task) (pl_keeper_address pl) (ledger tx) h role"
      let ?s' = "s1\<lparr>last_confirmed_ts := stamp p s1, log := log s1 @ [?ev]\<rparr>"
      have "after_submission p pl task role h s = (Ok (), ?s')"
        using Ok True run by (simp add: after_submission_def comp_simps store_confirmed_def stamp_def)
      moreover have "follows p pl task role Confirming [?ev] s1 ?s'"
        by (rule follows_end, rule attempt_step.confirmed) (simp_all add: stamp_def)
      ultimately show ?thesis by blast
    next
      case False
      with Ok run show ?thesis
        by (intro follows_line [OF _ attempt_step.failed]) (simp_all add: after_submission_def comp_simps)
    qed
  next
    case (Err e)
    show ?thesis
    proof (cases "\<exists>d. e = NonTransient (ConfirmationTimeout d)")
      case True
      with Err run show ?thesis
        by (intro follows_line [OF _ attempt_step.timed_out]) (auto simp: after_submission_def comp_simps)
    next
      case False
      with Err run have "after_submission p pl task role h s =
          (Ok (), s1\<lparr>log := log s1 @ [ConfirmationError (task_id_hex task) e]\<rparr>)"
        by (cases e) (auto simp: after_submission_def comp_simps split: NonTransientError.splits)
      then show ?thesis by (rule follows_line [OF _ attempt_step.unknown]) simp
    qed
  qed (use np in simp)
  with follows_event [OF start _ log1] show ?thesis by blast
qed
text \<open>One attempt, given that the attempts after it follow the machine.\<close>

lemma attempt_follows:
  fixes p :: "('a, 'v) Platform" and s :: "'a Engine"
  assumes free: "deadline s = None" and cap: "unat (pl_retry_backoff_max pl) \<le> 2 ^ 62"
    and n: "n + left = unat (pl_max_retries pl)"
    and backoff: "unat backoff = min (unat (pl_retry_backoff_initial pl) * 2 ^ n) (unat (pl_retry_backoff_max pl))"
    and rest: "\<And>b (s2 :: 'a Engine). left \<noteq> 0 \<Longrightarrow> deadline s2 = None \<Longrightarrow>
      unat b = min (unat (pl_retry_backoff_initial pl) * 2 ^ Suc n) (unat (pl_retry_backoff_max pl)) \<Longrightarrow>
      \<exists>l s'. retry_from p pl task role left (Suc n) b s2 = (Ok (), s') \<and>
        follows p pl task role (Submitting (Suc n)) l s2 s'"
  shows "\<exists>l s'. retry_from p pl task role (Suc left) n backoff s = (Ok (), s') \<and>
    follows p pl task role (Submitting n) l s s'"
proof -
  let ?send = "send_transaction p (pl_rpc pl) (build_signed_transaction p pl task role)"
  obtain r s1 where run: "?send s = (r, s1)" by fastforce
  from send_log [OF run] obtain k m where
    s1: "s1 = s\<lparr>log := log s @ RpcCall ''sendTransaction'' # k, net := m\<rparr>" and noise: "set k \<subseteq> {RpcHttpError}"
    by blast
  have free1: "deadline s1 = None" using free by (simp add: s1)
  have np: "\<forall>msg. r \<noteq> Panic msg" using touches_free [OF touches_requests(1) free run] by blast
  have start: "attempt_run pl task role (Submitting n) (RpcCall ''sendTransaction'' # k) (Judging n)"
    using noise by (intro attempt_run.event [OF attempt_step.submit] attempt_run_noise) simp_all
  have "\<exists>l s'. retry_from p pl task role (Suc left) n backoff s = (Ok (), s') \<and>
      follows p pl task role (Judging n) l s1 s'"
  proof -
    consider (ok) h where "r = Ok h" | (last) e where "r = Err (Transient e)" "left = 0"
      | (again) e where "r = Err (Transient e)" "left \<noteq> 0" | (drop) e where "r = Err (NonTransient e)"
      using np by (metis EngineError.exhaust outcome.exhaust)
    then show ?thesis
    proof cases
      case ok
      with run after_submission_follows [OF free1, of p pl task role h n] show ?thesis
        by (simp add: comp_simps)
    next
      case last
      with run n have "retry_from p pl task role (Suc left) n backoff s =
          (Ok (), s1\<lparr>log := log s1 @ [MaxRetriesReached (task_id_hex task) e n]\<rparr>)"
        by (simp add: comp_simps)
      moreover
      have "attempt_step pl task role (Judging n) (MaxRetriesReached (task_id_hex task) e n) Finished"
        using n last attempt_step.exhausted [of pl task role e] by simp
      from follows_line [of "retry_from p pl task role (Suc left) n backoff", OF calculation this]
      show ?thesis by (simp only: is_confirmation.simps) blast
    next
      case drop
      let ?ev = "NonTransientDropped (task_id_hex task) e"
      from drop run have "retry_from p pl task role (Suc left) n backoff s = (Ok (), s1\<lparr>log := log s1 @ [?ev]\<rparr>)"
        by (simp add: comp_simps)
      from follows_line [of "retry_from p pl task role (Suc left) n backoff", OF this attempt_step.refused]
      show ?thesis by (simp only: is_confirmation.simps) blast
    next
      case again
      let ?ev = "Retrying (task_id_hex task) e n backoff"
      let ?s2 = "s1\<lparr>log := log s1 @ [?ev], net := sleep_for p backoff (net s1)\<rparr>"
      have "unat backoff \<le> unat (pl_retry_backoff_max pl)" using backoff by simp
      from backoff.step_below [OF cap this] obtain b where
        b: "next_backoff (pl_retry_backoff_max pl) backoff = Some b"
          "unat b = min (unat backoff * 2) (unat (pl_retry_backoff_max pl))" by auto
      have "min (min (x * 2 ^ n) c * 2) c = min (x * 2 ^ Suc n) c" for x c :: nat
        by (cases "x * 2 ^ n \<le> c") (simp_all add: min_def algebra_simps)
      with b(2) backoff have "unat b = min (unat (pl_retry_backoff_initial pl) * 2 ^ Suc n) (unat (pl_retry_backoff_max pl))"
        by simp
      with rest [of ?s2 b] again free1 obtain l s' where
        tail: "retry_from p pl task role left (Suc n) b ?s2 = (Ok (), s')"
          "follows p pl task role (Submitting (Suc n)) l ?s2 s'" by auto
      have "retry_from p pl task role (Suc left) n backoff s = (Ok (), s')"
        using again run free1 n b(1) tail(1) by (simp add: comp_simps)
      moreover have "attempt_run pl task role (Judging n) [?ev] (Submitting (Suc n))"
        using n again backoff
        by (intro attempt_run.event [OF attempt_step.retry] attempt_run.stop) simp_all
      from follows_event [OF this tail(2)] have "follows p pl task role (Judging n) ([?ev] @ l) s1 s'" by simp
      ultimately show ?thesis by blast
    qed
  qed
  with follows_event [OF start] show ?thesis
    by (fastforce simp: s1)
qed

lemma retry_follows:
  assumes cap: "unat (pl_retry_backoff_max pl) \<le> 2 ^ 62"
  shows "deadline s = None \<Longrightarrow> n + left = unat (pl_max_retries pl) \<Longrightarrow>
    unat backoff = min (unat (pl_retry_backoff_initial pl) * 2 ^ n) (unat (pl_retry_backoff_max pl)) \<Longrightarrow>
    \<exists>l s'. retry_from p pl task role (Suc left) n backoff s = (Ok (), s') \<and>
      follows p pl task role (Submitting n) l s s'"
proof (induction left arbitrary: n backoff s)
  case 0
  then show ?case by (intro attempt_follows [OF _ cap]) simp_all
next
  case (Suc left)
  show ?case
    by (rule attempt_follows [OF Suc.prems(1) cap Suc.prems(2,3)])
      (rule Suc.IH, assumption, use Suc.prems(2) in simp, assumption)
qed

section \<open>Refinement\<close>

lemma execute_follows:
  assumes "deadline s = None" and "unat (pl_retry_backoff_max pl) \<le> 2 ^ 62"
    and "unat (pl_retry_backoff_initial pl) \<le> unat (pl_retry_backoff_max pl)"
  shows "\<exists>l s'. execute_with_retry p pl task role s = (Ok (), s') \<and>
    follows p pl task role (Submitting 0) l s s'"
  using retry_follows [OF assms(2,1), of 0 "unat (pl_max_retries pl)" "pl_retry_backoff_initial pl"]
    assms(3)
  by (simp add: execute_with_retry_def min_absorb1 del: retry_from.simps)

lemma dispatch_attempts:
  assumes "deadline s = None" and "unat (pl_retry_backoff_max pl) \<le> 2 ^ 62"
    and "unat (pl_retry_backoff_initial pl) \<le> unat (pl_retry_backoff_max pl)"
    and new: "\<not> contains_task (parse_task_id p (task_id_hex task)) (in_flight s)"
  shows "\<exists>l s'. dispatch p pl task role s = (Ok (), s') \<and> attempted s l s' \<and>
    attempt_run pl task role (Submitting 0) l Finished \<and>
    last_confirmed_ts s' = (if is_confirmation (last l) then stamp p s' else last_confirmed_ts s)"
proof -
  let ?i = "parse_task_id p (task_id_hex task)"
  let ?s = "s\<lparr>in_flight := finsert ?i (in_flight s)\<rparr>"
  from execute_follows [of ?s pl p task role] assms(1-3) obtain l s1 where
    run: "execute_with_retry p pl task role ?s = (Ok (), s1)" and fol: "follows p pl task role (Submitting 0) l ?s s1"
    by auto
  let ?s' = "s1\<lparr>in_flight := remove_task ?i (in_flight s1)\<rparr>"
  have disp: "dispatch p pl task role s = (Ok (), ?s')"
    using new run by (simp add: dispatch_def Let_def comp_simps insert_task_def contains_task_def)
  from fol have l: "attempt_run pl task role (Submitting 0) l Finished" "log ?s' = log s @ l"
    "last_confirmed_ts ?s' = (if is_confirmation (last l) then stamp p ?s' else last_confirmed_ts s)"
    by (simp_all add: follows_def stamp_def)
  from dispatch_run [OF assms(1-3)] disp obtain l' where "attempted s l' ?s'" by (metis Pair_inject)
  moreover from this l(2) have "l' = l" by (simp add: attempted_def)
  ultimately show ?thesis using disp l(1,3) by blast
qed

text \<open>
  C16: a dispatch refines the attempt machine.  It returns for every behaviour of the network and leaves
  the in-flight set as it was.  A task that is in flight is left alone.  Otherwise the events reported
  form a complete run of the machine from attempt 0: submissions numbered without gaps, each retried
  transient failure followed by the announcement of a wait of \<open>min (initial * 2^n) max\<close> seconds (that the
  waits are slept is a property of \<open>Engine_Pipeline\<close>), giving up exactly after
  attempt \<open>max_retries\<close>, one request for the result of an accepted submission, and a single closing
  verdict about this task.  Hence at most \<open>max_retries + 1\<close> submissions; a confirmation, if reported, is
  the last event, and the last-confirmed timestamp is then the clock's and otherwise what it was.
\<close>
theorem dispatch_refines_attempts:
  assumes "deadline s = None" and "unat (pl_retry_backoff_max pl) \<le> 60"
    and "unat (pl_retry_backoff_initial pl) \<le> unat (pl_retry_backoff_max pl)"
  shows "\<exists>l s'. dispatch p pl task role s = (Ok (), s') \<and> in_flight s' = in_flight s \<and> log s' = log s @ l \<and>
    (if contains_task (parse_task_id p (task_id_hex task)) (in_flight s) then s' = s
     else attempt_run pl task role (Submitting 0) l Finished \<and>
       sends l \<le> unat (pl_max_retries pl) + 1 \<and>
       (\<forall>ev \<in> set l. is_confirmation ev \<longrightarrow> ev = last l) \<and>
       last_confirmed_ts s' = (if is_confirmation (last l) then stamp p s' else last_confirmed_ts s))"
proof (cases "contains_task (parse_task_id p (task_id_hex task)) (in_flight s)")
  case True
  with dispatch_flying [OF True] show ?thesis by (intro exI [of _ "[]"] exI [of _ s]) simp
next
  case False
  have "unat (pl_retry_backoff_max pl) \<le> 2 ^ 62" using assms(2) by simp
  from dispatch_attempts [OF assms(1) this assms(3) False] obtain l s' where
    run: "dispatch p pl task role s = (Ok (), s')" "attempted s l s'"
      "attempt_run pl task role (Submitting 0) l Finished"
      "last_confirmed_ts s' = (if is_confirmation (last l) then stamp p s' else last_confirmed_ts s)" by blast
  moreover from run(2) have "in_flight s' = in_flight s" "log s' = log s @ l" unfolding attempted_def by blast+
  moreover have "sends l \<le> unat (pl_max_retries pl) + 1"
    using attempt_run_sends [OF run(3)] by (simp add: phase_ok_def)
  moreover have "\<forall>ev \<in> set l. is_confirmation ev \<longrightarrow> ev = last l"
    using confirmation_last [OF run(3)] by blast
  ultimately show ?thesis using False by (intro exI [of _ l] exI [of _ s']) (simp only: if_False)
qed

theorem dispatch_refines_attempts_witness:
  "\<exists>l s'. dispatch unreachable_platform (demo_pipeline 3) demo_task Secondary (demo_engine []) = (Ok (), s') \<and>
     in_flight s' = {||} \<and>
     attempt_run (demo_pipeline 3) demo_task Secondary (Submitting 0) l Finished \<and> log s' = l \<and> sends l \<le> 4"
  using dispatch_refines_attempts [of "demo_engine []" "demo_pipeline 3" unreachable_platform demo_task Secondary]
  by (auto simp: demo_engine_def demo_pipeline_def contains_task_def)

end
