(* ===== verification/Engine_Config.thy ===== *)
theory Engine_Config
  imports Engine_Base
begin

text \<open>
  Configuration, \<open>the-engine/src/config.rs\<close>.  The process environment, the file system and the TOML
  decoder are the fields of the parameter record \<open>Process\<close>; the warning about a zero retry count
  goes to the log, which is the only state of the computation.
\<close>

record FileConfig =
  f_keeper_keypair :: "string option"
  f_rpc_endpoint_url :: "string option"
  f_anchor_contract_address :: "string option"
  f_poll_interval_secs :: "u64 option"
  f_task_query_timeout_secs :: "u64 option"
  f_confirmation_timeout_secs :: "u64 option"
  f_retry_backoff_initial_secs :: "u64 option"
  f_retry_backoff_max_secs :: "u64 option"
  f_max_retries :: "u32 option"
  f_health_port :: "u16 option"

record EngineConfig =
  keeper_keypair :: string
  rpc_endpoint_url :: string
  anchor_contract_address :: string
  poll_interval :: Duration
  task_query_timeout :: Duration
  confirmation_timeout :: Duration
  retry_backoff_initial :: Duration
  retry_backoff_max :: Duration
  max_retries :: u32
  health_port :: u16
  config_file_path :: "string option"

record Process =
  env_var :: "string \<Rightarrow> string option"
  path_exists :: "string \<Rightarrow> bool"
  read_to_string :: "string \<Rightarrow> string + string"
  toml_from_str :: "string \<Rightarrow> string + FileConfig"

type_synonym 'a configuring = "(LogEvent list, EngineError, 'a) comp"

definition config_invalid :: "string \<Rightarrow> string \<Rightarrow> 'a configuring" where
  "config_invalid field reason = throw_c (NonTransient (ConfigInvalid field reason))"

definition DEFAULT_POLL_INTERVAL_SECS :: u64 where "DEFAULT_POLL_INTERVAL_SECS = 2"
definition DEFAULT_TASK_QUERY_TIMEOUT_SECS :: u64 where "DEFAULT_TASK_QUERY_TIMEOUT_SECS = 10"
definition DEFAULT_CONFIRMATION_TIMEOUT_SECS :: u64 where "DEFAULT_CONFIRMATION_TIMEOUT_SECS = 60"
definition DEFAULT_RETRY_BACKOFF_INITIAL_SECS :: u64 where "DEFAULT_RETRY_BACKOFF_INITIAL_SECS = 1"
definition DEFAULT_RETRY_BACKOFF_MAX_SECS :: u64 where "DEFAULT_RETRY_BACKOFF_MAX_SECS = 60"
definition DEFAULT_MAX_RETRIES :: u32 where "DEFAULT_MAX_RETRIES = 5"
definition DEFAULT_HEALTH_PORT :: u16 where "DEFAULT_HEALTH_PORT = 8080"

lemmas config_defaults = DEFAULT_POLL_INTERVAL_SECS_def DEFAULT_TASK_QUERY_TIMEOUT_SECS_def
  DEFAULT_CONFIRMATION_TIMEOUT_SECS_def DEFAULT_RETRY_BACKOFF_INITIAL_SECS_def
  DEFAULT_RETRY_BACKOFF_MAX_SECS_def DEFAULT_MAX_RETRIES_def DEFAULT_HEALTH_PORT_def

definition FileConfig_default :: FileConfig where
  "FileConfig_default =
     \<lparr>f_keeper_keypair = None, f_rpc_endpoint_url = None, f_anchor_contract_address = None,
      f_poll_interval_secs = None, f_task_query_timeout_secs = None,
      f_confirmation_timeout_secs = None, f_retry_backoff_initial_secs = None,
      f_retry_backoff_max_secs = None, f_max_retries = None, f_health_port = None\<rparr>"

definition find_config_file :: "Process \<Rightarrow> string option" where
  "find_config_file e = (case env_var e ''CONFIG_FILE'' of
       Some path \<Rightarrow> Some path
     | None \<Rightarrow> if path_exists e ''engine.toml'' then Some ''engine.toml'' else None)"

definition load_file_config :: "Process \<Rightarrow> string option \<Rightarrow> FileConfig configuring" where
  "load_file_config e path = (case path of
       None \<Rightarrow> return_c FileConfig_default
     | Some path \<Rightarrow>
         (case read_to_string e path of
            Inl err \<Rightarrow> config_invalid ''config_file'' err
          | Inr raw \<Rightarrow>
              (case toml_from_str e raw of
                 Inl err \<Rightarrow> config_invalid ''config_file'' err
               | Inr file \<Rightarrow> return_c file)))"

definition or_else :: "'a option \<Rightarrow> 'a option \<Rightarrow> 'a option" where
  "or_else x y = (case x of None \<Rightarrow> y | Some a \<Rightarrow> Some a)"

definition resolve_str :: "Process \<Rightarrow> string \<Rightarrow> string option \<Rightarrow> string option" where
  "resolve_str e key file_val = or_else (env_var e key) file_val"

text \<open>\<open>resolve_u64\<close>, \<open>resolve_u32\<close> and \<open>resolve_u16\<close> differ only in the type they parse.\<close>

definition resolve_uint :: "Process \<Rightarrow> string \<Rightarrow> 'a::len word option \<Rightarrow> 'a word option" where
  "resolve_uint e key file_val = or_else (Option.bind (env_var e key) parse_uint) file_val"

definition required_field :: "Process \<Rightarrow> string \<Rightarrow> string option \<Rightarrow> string configuring" where
  "required_field e key file_val = (case resolve_str e key file_val of
       None \<Rightarrow> config_invalid key ''required env var is missing or empty''
     | Some v \<Rightarrow>
         if blank v then config_invalid key ''value must not be empty'' else return_c v)"

text \<open>The signs \<open>\<le>\<close> and \<open>\<ge>\<close> of the messages, as UTF-8.\<close>

definition LE_SIGN :: string where "LE_SIGN = [CHR 0xE2, CHR 0x89, CHR 0xA4]"
definition GE_SIGN :: string where "GE_SIGN = [CHR 0xE2, CHR 0x89, CHR 0xA5]"

definition validate_ranges :: "u64 \<Rightarrow> u64 \<Rightarrow> u64 \<Rightarrow> u64 \<Rightarrow> u64 \<Rightarrow> u32 \<Rightarrow> unit configuring" where
  "validate_ranges poll query confirm initial cap retries =
     (if \<not> (1 \<le> poll \<and> poll \<le> 5) then
        config_invalid ''POLL_INTERVAL_SECS''
          (''must be between 1 and 5 inclusive, got '' @ decimal (unat poll))
      else if 10 < query then
        config_invalid ''TASK_QUERY_TIMEOUT_SECS''
          (''must be '' @ LE_SIGN @ '' 10 seconds, got '' @ decimal (unat query))
      else if 60 < confirm then
        config_invalid ''CONFIRMATION_TIMEOUT_SECS''
          (''must be '' @ LE_SIGN @ '' 60 seconds, got '' @ decimal (unat confirm))
      else if initial < 1 then
        config_invalid ''RETRY_BACKOFF_INITIAL_SECS'' (''must be '' @ GE_SIGN @ '' 1 second'')
      else if 60 < cap then
        config_invalid ''RETRY_BACKOFF_MAX_SECS''
          (''must be '' @ LE_SIGN @ '' 60 seconds, got '' @ decimal (unat cap))
      else if cap < initial then
        config_invalid ''RETRY_BACKOFF_MAX_SECS''
          (''must be '' @ GE_SIGN @ '' RETRY_BACKOFF_INITIAL_SECS ('' @ decimal (unat initial) @ '')'')
      else if retries = 0 then modify_c (\<lambda>l. l @ [MaxRetriesIsZero])
      else skip_c)"

definition accepted_config ::
  "string \<Rightarrow> string \<Rightarrow> string \<Rightarrow> u64 \<Rightarrow> u64 \<Rightarrow> u64 \<Rightarrow> u64 \<Rightarrow> u64 \<Rightarrow> u32 \<Rightarrow> u16 \<Rightarrow> string option \<Rightarrow> EngineConfig" where
  "accepted_config keypair url anchor poll query confirm initial cap retries port path =
     \<lparr>keeper_keypair = keypair, rpc_endpoint_url = url, anchor_contract_address = anchor,
      poll_interval = poll, task_query_timeout = query, confirmation_timeout = confirm,
      retry_backoff_initial = initial, retry_backoff_max = cap, max_retries = retries,
      health_port = port, config_file_path = path\<rparr>"

definition from_env :: "Process \<Rightarrow> EngineConfig configuring" where
  "from_env e =
     (let path = find_config_file e in
      bind_c (load_file_config e path) (\<lambda>file.
      bind_c (required_field e ''KEEPER_KEYPAIR'' (f_keeper_keypair file)) (\<lambda>keypair.
      bind_c (required_field e ''RPC_ENDPOINT_URL'' (f_rpc_endpoint_url file)) (\<lambda>url.
      bind_c (required_field e ''ANCHOR_CONTRACT_ADDRESS'' (f_anchor_contract_address file)) (\<lambda>anchor.
      let poll = unwrap_or DEFAULT_POLL_INTERVAL_SECS
            (resolve_uint e ''POLL_INTERVAL_SECS'' (f_poll_interval_secs file));
          query = unwrap_or DEFAULT_TASK_QUERY_TIMEOUT_SECS
            (resolve_uint e ''TASK_QUERY_TIMEOUT_SECS'' (f_task_query_timeout_secs file));
          confirm = unwrap_or DEFAULT_CONFIRMATION_TIMEOUT_SECS
            (resolve_uint e ''CONFIRMATION_TIMEOUT_SECS'' (f_confirmation_timeout_secs file));
          initial = unwrap_or DEFAULT_RETRY_BACKOFF_INITIAL_SECS
            (resolve_uint e ''RETRY_BACKOFF_INITIAL_SECS'' (f_retry_backoff_initial_secs file));
          cap = unwrap_or DEFAULT_RETRY_BACKOFF_MAX_SECS
            (resolve_uint e ''RETRY_BACKOFF_MAX_SECS'' (f_retry_backoff_max_secs file));
          retries = unwrap_or DEFAULT_MAX_RETRIES
            (resolve_uint e ''MAX_RETRIES'' (f_max_retries file));
          port = unwrap_or DEFAULT_HEALTH_PORT
            (resolve_uint e ''HEALTH_PORT'' (f_health_port file)) in
      bind_c (validate_ranges poll query confirm initial cap retries) (\<lambda>_.
      return_c (accepted_config keypair url anchor poll query confirm initial cap retries port path)))))))"

section \<open>Evaluation of the stages\<close>

lemma config_invalid_apply [comp_simps]:
  "config_invalid field reason l = (Err (NonTransient (ConfigInvalid field reason)), l)"
  by (simp add: config_invalid_def comp_simps)

definition file_config_of :: "Process \<Rightarrow> FileConfig option" where
  "file_config_of e = (case find_config_file e of
       None \<Rightarrow> Some FileConfig_default
     | Some path \<Rightarrow> (case read_to_string e path of
         Inl _ \<Rightarrow> None
       | Inr raw \<Rightarrow> (case toml_from_str e raw of Inl _ \<Rightarrow> None | Inr file \<Rightarrow> Some file)))"

lemma load_file_config_Ok_iff:
  "load_file_config e (find_config_file e) l = (Ok file, l') \<longleftrightarrow> file_config_of e = Some file \<and> l' = l"
  by (auto simp: load_file_config_def file_config_of_def comp_simps split: option.splits sum.splits)

lemma required_field_Ok_iff:
  "required_field e key file_val l = (Ok v, l') \<longleftrightarrow>
     resolve_str e key file_val = Some v \<and> \<not> blank v \<and> l' = l"
  by (auto simp: required_field_def comp_simps split: option.splits)

definition ranges_ok :: "u64 \<Rightarrow> u64 \<Rightarrow> u64 \<Rightarrow> u64 \<Rightarrow> u64 \<Rightarrow> bool" where
  "ranges_ok poll query confirm initial cap \<longleftrightarrow>
     1 \<le> unat poll \<and> unat poll \<le> 5 \<and> unat query \<le> 10 \<and> unat confirm \<le> 60 \<and>
     1 \<le> unat initial \<and> unat initial \<le> unat cap \<and> unat cap \<le> 60"

lemma validate_ranges_Ok_iff:
  "validate_ranges poll query confirm initial cap retries l = (Ok u, l') \<longleftrightarrow>
     ranges_ok poll query confirm initial cap \<and>
     l' = (if retries = 0 then l @ [MaxRetriesIsZero] else l)"
proof -
  have "\<not> (1 \<le> poll \<and> poll \<le> 5) \<longleftrightarrow> \<not> (1 \<le> unat poll \<and> unat poll \<le> 5)"
    "10 < query \<longleftrightarrow> 10 < unat query" "60 < confirm \<longleftrightarrow> 60 < unat confirm"
    "initial < 1 \<longleftrightarrow> unat initial < 1" "60 < cap \<longleftrightarrow> 60 < unat cap" "cap < initial \<longleftrightarrow> unat cap < unat initial"
    by (simp_all add: word_le_nat_alt word_less_nat_alt)
  then show ?thesis
    unfolding validate_ranges_def ranges_ok_def by (auto simp: comp_simps)
qed

lemma from_env_Ok_iff:
  "from_env e l = (Ok cfg, l') \<longleftrightarrow>
     (\<exists>file. file_config_of e = Some file \<and>
        cfg = \<lparr>keeper_keypair = keeper_keypair cfg, rpc_endpoint_url = rpc_endpoint_url cfg,
          anchor_contract_address = anchor_contract_address cfg,
          poll_interval = unwrap_or 2 (resolve_uint e ''POLL_INTERVAL_SECS'' (f_poll_interval_secs file)),
          task_query_timeout =
            unwrap_or 10 (resolve_uint e ''TASK_QUERY_TIMEOUT_SECS'' (f_task_query_timeout_secs file)),
          confirmation_timeout =
            unwrap_or 60 (resolve_uint e ''CONFIRMATION_TIMEOUT_SECS'' (f_confirmation_timeout_secs file)),
          retry_backoff_initial =
            unwrap_or 1 (resolve_uint e ''RETRY_BACKOFF_INITIAL_SECS'' (f_retry_backoff_initial_secs file)),
          retry_backoff_max =
            unwrap_or 60 (resolve_uint e ''RETRY_BACKOFF_MAX_SECS'' (f_retry_backoff_max_secs file)),
          max_retries = unwrap_or 5 (resolve_uint e ''MAX_RETRIES'' (f_max_retries file)),
          health_port = unwrap_or 8080 (resolve_uint e ''HEALTH_PORT'' (f_health_port file)),
          config_file_path = find_config_file e\<rparr> \<and>
        resolve_str e ''KEEPER_KEYPAIR'' (f_keeper_keypair file) = Some (keeper_keypair cfg) \<and>
        resolve_str e ''RPC_ENDPOINT_URL'' (f_rpc_endpoint_url file) = Some (rpc_endpoint_url cfg) \<and>
        resolve_str e ''ANCHOR_CONTRACT_ADDRESS'' (f_anchor_contract_address file) =
          Some (anchor_contract_address cfg) \<and>
        \<not> blank (keeper_keypair cfg) \<and> \<not> blank (rpc_endpoint_url cfg) \<and>
        \<not> blank (anchor_contract_address cfg) \<and>
        ranges_ok (poll_interval cfg) (task_query_timeout cfg) (confirmation_timeout cfg)
          (retry_backoff_initial cfg) (retry_backoff_max cfg) \<and>
        l' = (if max_retries cfg = 0 then l @ [MaxRetriesIsZero] else l))"
  unfolding from_env_def Let_def bind_c_Ok_iff load_file_config_Ok_iff required_field_Ok_iff
    validate_ranges_Ok_iff config_defaults accepted_config_def
  by (cases cfg) (auto simp: comp_simps)

text \<open>A configuration that fails names the offending field.\<close>

definition CONFIG_FIELDS :: "string set" where
  "CONFIG_FIELDS = {''config_file'', ''KEEPER_KEYPAIR'', ''RPC_ENDPOINT_URL'', ''ANCHOR_CONTRACT_ADDRESS'',
     ''POLL_INTERVAL_SECS'', ''TASK_QUERY_TIMEOUT_SECS'', ''CONFIRMATION_TIMEOUT_SECS'',
     ''RETRY_BACKOFF_INITIAL_SECS'', ''RETRY_BACKOFF_MAX_SECS''}"

lemma CONFIG_FIELDS_mem:
  "''config_file'' \<in> CONFIG_FIELDS" "''KEEPER_KEYPAIR'' \<in> CONFIG_FIELDS"
  "''RPC_ENDPOINT_URL'' \<in> CONFIG_FIELDS" "''ANCHOR_CONTRACT_ADDRESS'' \<in> CONFIG_FIELDS"
  "''POLL_INTERVAL_SECS'' \<in> CONFIG_FIELDS" "''TASK_QUERY_TIMEOUT_SECS'' \<in> CONFIG_FIELDS"
  "''CONFIRMATION_TIMEOUT_SECS'' \<in> CONFIG_FIELDS" "''RETRY_BACKOFF_INITIAL_SECS'' \<in> CONFIG_FIELDS"
  "''RETRY_BACKOFF_MAX_SECS'' \<in> CONFIG_FIELDS"
  by (simp_all add: CONFIG_FIELDS_def)

definition names_field :: "'a configuring \<Rightarrow> bool" where
  "names_field m \<longleftrightarrow> (\<forall>l. (\<exists>a l'. m l = (Ok a, l')) \<or>
     (\<exists>field reason. field \<in> CONFIG_FIELDS \<and> m l = (Err (NonTransient (ConfigInvalid field reason)), l)))"

lemma names_field_prim:
  "names_field (return_c a)" "names_field skip_c" "names_field (modify_c f)"
  "field \<in> CONFIG_FIELDS \<Longrightarrow> names_field (config_invalid field reason)"
  by (auto simp: names_field_def comp_simps)

lemma names_field_stages:
  "names_field (load_file_config e path)"
  "key \<in> CONFIG_FIELDS \<Longrightarrow> names_field (required_field e key v)"
  "names_field (validate_ranges poll query confirm initial cap retries)"
  by (auto simp: load_file_config_def required_field_def validate_ranges_def
      split: option.splits sum.splits intro!: names_field_prim CONFIG_FIELDS_mem)

lemma names_field_bind:
  assumes m: "names_field m" and f: "\<And>a. names_field (f a)"
    and pure: "\<And>a l l'. m l = (Ok a, l') \<Longrightarrow> l' = l"
  shows "names_field (bind_c m f)"
  unfolding names_field_def
proof
  fix l
  show "(\<exists>a l'. bind_c m f l = (Ok a, l')) \<or> (\<exists>field reason. field \<in> CONFIG_FIELDS \<and>
      bind_c m f l = (Err (NonTransient (ConfigInvalid field reason)), l))"
  proof (cases "\<exists>a. m l = (Ok a, l)")
    case True
    then obtain a where "m l = (Ok a, l)" by blast
    then have "bind_c m f l = f a l" by (simp add: comp_simps)
    with f [of a] show ?thesis by (auto simp only: names_field_def)
  next
    case False
    with m pure obtain field reason where "field \<in> CONFIG_FIELDS"
      "m l = (Err (NonTransient (ConfigInvalid field reason)), l)"
      unfolding names_field_def by metis
    then show ?thesis by (metis bind_c_apply(2))
  qed
qed

lemma names_field_finish:
  assumes "names_field m"
  shows "names_field (bind_c m (\<lambda>_. return_c r))"
  unfolding names_field_def
proof
  fix l
  from assms consider a l' where "m l = (Ok a, l')" | field reason where "field \<in> CONFIG_FIELDS"
    "m l = (Err (NonTransient (ConfigInvalid field reason)), l)"
    unfolding names_field_def by metis
  then show "(\<exists>a l'. bind_c m (\<lambda>_. return_c r) l = (Ok a, l')) \<or>
      (\<exists>field reason. field \<in> CONFIG_FIELDS \<and>
         bind_c m (\<lambda>_. return_c r) l = (Err (NonTransient (ConfigInvalid field reason)), l))"
    by cases (auto simp: comp_simps)
qed

lemma stages_pure:
  "load_file_config e path l = (Ok file, l') \<Longrightarrow> l' = l"
  "required_field e key v l = (Ok x, l') \<Longrightarrow> l' = l"
  by (auto simp: load_file_config_def required_field_def comp_simps split: option.splits sum.splits if_splits)

lemma from_env_names_field: "names_field (from_env e)"
  unfolding from_env_def Let_def
  by (intro names_field_bind names_field_finish names_field_stages CONFIG_FIELDS_mem)
    (erule stages_pure)+

lemma from_env_log:
  "from_env e l = (Ok cfg, l') \<Longrightarrow> l' = (if max_retries cfg = 0 then l @ [MaxRetriesIsZero] else l)"
  by (simp only: from_env_Ok_iff) blast

section \<open>Properties\<close>

definition demo_file :: FileConfig where
  "demo_file = FileConfig_default\<lparr>f_poll_interval_secs := Some 3, f_max_retries := Some 0\<rparr>"

text \<open>A node configured by the three required variables, a retry count and an \<open>engine.toml\<close>.\<close>

definition demo_process :: Process where
  "demo_process =
     \<lparr>env_var = [''KEEPER_KEYPAIR'' \<mapsto> ''SABC'', ''RPC_ENDPOINT_URL'' \<mapsto> ''http://rpc'',
        ''ANCHOR_CONTRACT_ADDRESS'' \<mapsto> ''CANCHOR'', ''MAX_RETRIES'' \<mapsto> ''7'', ''POLL_INTERVAL_SECS'' \<mapsto> ''x''],
      path_exists = (\<lambda>_. True), read_to_string = (\<lambda>_. Inr ''toml''),
      toml_from_str = (\<lambda>_. Inr demo_file)\<rparr>"

definition demo_config :: EngineConfig where
  "demo_config = \<lparr>keeper_keypair = ''SABC'', rpc_endpoint_url = ''http://rpc'',
     anchor_contract_address = ''CANCHOR'', poll_interval = 3, task_query_timeout = 10,
     confirmation_timeout = 60, retry_backoff_initial = 1, retry_backoff_max = 60, max_retries = 7,
     health_port = 8080, config_file_path = Some ''engine.toml''\<rparr>"

lemma demo_from_env: "from_env demo_process l = (Ok demo_config, l)"
  by (simp add: from_env_Ok_iff demo_process_def demo_config_def file_config_of_def find_config_file_def
      demo_file_def FileConfig_default_def resolve_str_def resolve_uint_def or_else_def parse_uint_def
      strip_plus_def digit_value_def byte_of_def blank_def ranges_ok_def)

text \<open>
  C20: loading decides completely.  It ends with a configuration, and then only the zero-retries
  warning is logged, or with a \<open>ConfigInvalid\<close> error that names one of the documented fields, and
  then nothing is logged; it never panics.
\<close>
theorem config_errors_name_the_field:
  "(\<exists>cfg. from_env e l = (Ok cfg, if max_retries cfg = 0 then l @ [MaxRetriesIsZero] else l)) \<or>
   (\<exists>field reason. from_env e l = (Err (NonTransient (ConfigInvalid field reason)), l) \<and>
      field \<in> {''config_file'', ''KEEPER_KEYPAIR'', ''RPC_ENDPOINT_URL'', ''ANCHOR_CONTRACT_ADDRESS'',
        ''POLL_INTERVAL_SECS'', ''TASK_QUERY_TIMEOUT_SECS'', ''CONFIRMATION_TIMEOUT_SECS'',
        ''RETRY_BACKOFF_INITIAL_SECS'', ''RETRY_BACKOFF_MAX_SECS''})"
proof (cases "\<exists>cfg l'. from_env e l = (Ok cfg, l')")
  case True
  then obtain cfg l' where ok: "from_env e l = (Ok cfg, l')" by blast
  with from_env_log [OF ok] show ?thesis by auto
next
  case False
  with from_env_names_field [of e] show ?thesis unfolding names_field_def CONFIG_FIELDS_def by metis
qed

text \<open>The first source that gives a value; a numeric variable counts only when it parses.\<close>

fun first_of :: "'a option list \<Rightarrow> 'a option" where
  "first_of [] = None"
| "first_of (Some a # xs) = Some a"
| "first_of (None # xs) = first_of xs"

abbreviation number_in :: "Process \<Rightarrow> string \<Rightarrow> 'a::len word option" where
  "number_in e key \<equiv> Option.bind (env_var e key) parse_uint"

lemma or_else_first:
  "or_else x y = first_of [x, y]" "Some (unwrap_or d (or_else x y)) = first_of [x, y, Some d]"
  by (cases x; cases y; simp add: or_else_def)+

lemma resolve_first: "resolve_str e key v = first_of [env_var e key, v]"
  by (simp only: resolve_str_def or_else_first(1))

lemma resolved_iff: "x = unwrap_or d (resolve_uint e key w) \<longleftrightarrow> first_of [number_in e key, w, Some d] = Some x"
  unfolding resolve_uint_def or_else_first(2) [symmetric] by auto

text \<open>
  C22: what \<open>from_env\<close> accepts and yields.  It succeeds exactly when the file, if any, can be read and
  decoded, the three required texts are present and not blank and the numbers are in range; then
  every field is the first of its sources that gives a value: variable, file, default.  One exception
  to the promise that variables always override the file: a numeric variable that does not parse is
  passed over as if it were unset.
\<close>
theorem config_precedence:
  "from_env e l = (Ok cfg, l') \<longleftrightarrow>
    (\<exists>file. file_config_of e = Some file \<and>
      first_of [env_var e ''KEEPER_KEYPAIR'', f_keeper_keypair file] = Some (keeper_keypair cfg) \<and>
      first_of [env_var e ''RPC_ENDPOINT_URL'', f_rpc_endpoint_url file] = Some (rpc_endpoint_url cfg) \<and>
      first_of [env_var e ''ANCHOR_CONTRACT_ADDRESS'', f_anchor_contract_address file] =
        Some (anchor_contract_address cfg) \<and>
      first_of [number_in e ''POLL_INTERVAL_SECS'', f_poll_interval_secs file, Some 2] =
        Some (poll_interval cfg) \<and>
      first_of [number_in e ''TASK_QUERY_TIMEOUT_SECS'', f_task_query_timeout_secs file, Some 10] =
        Some (task_query_timeout cfg) \<and>
      first_of [number_in e ''CONFIRMATION_TIMEOUT_SECS'', f_confirmation_timeout_secs file, Some 60] =
        Some (confirmation_timeout cfg) \<and>
      first_of [number_in e ''RETRY_BACKOFF_INITIAL_SECS'', f_retry_backoff_initial_secs file, Some 1] =
        Some (retry_backoff_initial cfg) \<and>
      first_of [number_in e ''RETRY_BACKOFF_MAX_SECS'', f_retry_backoff_max_secs file, Some 60] =
        Some (retry_backoff_max cfg) \<and>
      first_of [number_in e ''MAX_RETRIES'', f_max_retries file, Some 5] = Some (max_retries cfg) \<and>
      first_of [number_in e ''HEALTH_PORT'', f_health_port file, Some 8080] = Some (health_port cfg) \<and>
      config_file_path cfg = find_config_file e \<and>
      \<not> blank (keeper_keypair cfg) \<and> \<not> blank (rpc_endpoint_url cfg) \<and> \<not> blank (anchor_contract_address cfg) \<and>
      ranges_ok (poll_interval cfg) (task_query_timeout cfg) (confirmation_timeout cfg)
        (retry_backoff_initial cfg) (retry_backoff_max cfg) \<and>
      l' = (if max_retries cfg = 0 then l @ [MaxRetriesIsZero] else l))"
proof -
  have fields: "cfg = \<lparr>keeper_keypair = keeper_keypair cfg, rpc_endpoint_url = rpc_endpoint_url cfg,
      anchor_contract_address = anchor_contract_address cfg, poll_interval = poll, task_query_timeout = query,
      confirmation_timeout = confirm, retry_backoff_initial = ini, retry_backoff_max = cap,
      max_retries = retries, health_port = port, config_file_path = path\<rparr> \<longleftrightarrow>
    poll_interval cfg = poll \<and> task_query_timeout cfg = query \<and> confirmation_timeout cfg = confirm \<and>
    retry_backoff_initial cfg = ini \<and> retry_backoff_max cfg = cap \<and> max_retries cfg = retries \<and>
    health_port cfg = port \<and> config_file_path cfg = path" for poll query confirm ini cap retries port path
    by (cases cfg) auto
  show ?thesis
    unfolding from_env_Ok_iff fields resolved_iff resolve_first
    by (intro iffI; elim exE conjE; rule exI; intro conjI; assumption)
qed

theorem config_precedence_witness:
  "first_of [number_in demo_process ''POLL_INTERVAL_SECS'', Some 3, Some 2] = Some (poll_interval demo_config) \<and>
   first_of [number_in demo_process ''MAX_RETRIES'', Some 0, Some 5] = Some (max_retries demo_config)"
proof -
  have "file_config_of demo_process = Some demo_file"
    by (simp add: file_config_of_def find_config_file_def demo_process_def)
  with config_precedence [of demo_process "[]" demo_config "[]"] demo_from_env [of "[]"]
  show ?thesis by (auto simp: demo_file_def FileConfig_default_def)
qed

section \<open>Printing a configuration\<close>

text \<open>The environment that spells a configuration out, one variable per field.\<close>

definition config_env :: "EngineConfig \<Rightarrow> string \<Rightarrow> string option" where
  "config_env cfg key = or_else
     ([''KEEPER_KEYPAIR'' \<mapsto> keeper_keypair cfg, ''RPC_ENDPOINT_URL'' \<mapsto> rpc_endpoint_url cfg,
       ''ANCHOR_CONTRACT_ADDRESS'' \<mapsto> anchor_contract_address cfg,
       ''POLL_INTERVAL_SECS'' \<mapsto> decimal (unat (poll_interval cfg)),
       ''TASK_QUERY_TIMEOUT_SECS'' \<mapsto> decimal (unat (task_query_timeout cfg)),
       ''CONFIRMATION_TIMEOUT_SECS'' \<mapsto> decimal (unat (confirmation_timeout cfg)),
       ''RETRY_BACKOFF_INITIAL_SECS'' \<mapsto> decimal (unat (retry_backoff_initial cfg)),
       ''RETRY_BACKOFF_MAX_SECS'' \<mapsto> decimal (unat (retry_backoff_max cfg)),
       ''MAX_RETRIES'' \<mapsto> decimal (unat (max_retries cfg)),
       ''HEALTH_PORT'' \<mapsto> decimal (unat (health_port cfg))] key)
     (if key = ''CONFIG_FILE'' then config_file_path cfg else None)"

lemma resolve_printed:
  "env_var e key = Some (decimal (unat w)) \<Longrightarrow> resolve_uint e key v = Some w"
  "env_var e key = Some str \<Longrightarrow> resolve_str e key x = Some str"
  by (simp_all add: resolve_uint_def resolve_str_def or_else_def parse_uint_decimal)

lemma same_file_found:
  "config_file_path cfg = find_config_file e \<Longrightarrow> find_config_file (e\<lparr>env_var := config_env cfg\<rparr>) = find_config_file e"
  by (auto simp: find_config_file_def config_env_def or_else_def split: option.splits if_splits)

text \<open>
  C21: printing and reading a configuration.  Every configuration \<open>from_env\<close> accepts, spelled out as
  environment variables, is read back as the very same configuration with the same log, whatever
  mixture of variables, file and defaults it came from.
\<close>
theorem config_roundtrip:
  assumes "from_env e l = (Ok cfg, l')"
  shows "from_env (e\<lparr>env_var := config_env cfg\<rparr>) l = (Ok cfg, l')"
proof -
  let ?e = "e\<lparr>env_var := config_env cfg\<rparr>"
  from assms obtain "file" where found: "file_config_of e = Some file"
    and path: "config_file_path cfg = find_config_file e"
    by (simp only: from_env_Ok_iff) (metis EngineConfig.select_convs(11))
  from path have find: "find_config_file ?e = find_config_file e" by (rule same_file_found)
  with found have "file_config_of ?e = Some file" by (simp add: file_config_of_def cong: option.case_cong sum.case_cong)
  moreover have
    "resolve_uint ?e ''POLL_INTERVAL_SECS'' (f_poll_interval_secs file) = Some (poll_interval cfg)"
    "resolve_uint ?e ''TASK_QUERY_TIMEOUT_SECS'' (f_task_query_timeout_secs file) = Some (task_query_timeout cfg)"
    "resolve_uint ?e ''CONFIRMATION_TIMEOUT_SECS'' (f_confirmation_timeout_secs file) = Some (confirmation_timeout cfg)"
    "resolve_uint ?e ''RETRY_BACKOFF_INITIAL_SECS'' (f_retry_backoff_initial_secs file) = Some (retry_backoff_initial cfg)"
    "resolve_uint ?e ''RETRY_BACKOFF_MAX_SECS'' (f_retry_backoff_max_secs file) = Some (retry_backoff_max cfg)"
    "resolve_uint ?e ''MAX_RETRIES'' (f_max_retries file) = Some (max_retries cfg)"
    "resolve_uint ?e ''HEALTH_PORT'' (f_health_port file) = Some (health_port cfg)"
    "resolve_str ?e ''KEEPER_KEYPAIR'' (f_keeper_keypair file) = Some (keeper_keypair cfg)"
    "resolve_str ?e ''RPC_ENDPOINT_URL'' (f_rpc_endpoint_url file) = Some (rpc_endpoint_url cfg)"
    "resolve_str ?e ''ANCHOR_CONTRACT_ADDRESS'' (f_anchor_contract_address file) = Some (anchor_contract_address cfg)"
    by (rule resolve_printed, simp add: config_env_def or_else_def)+
  ultimately show ?thesis
    using assms unfolding from_env_Ok_iff find path [symmetric] by auto
qed

theorem config_roundtrip_witness:
  "from_env (demo_process\<lparr>env_var := config_env demo_config\<rparr>) [] = (Ok demo_config, [])"
  by (rule config_roundtrip [OF demo_from_env])

end
