(* ===== verification/Engine_Discovery.thy ===== *)
theory Engine_Discovery
  imports Engine_Attempts
begin

text \<open>
  Task discovery and the grace monitor, \<open>the-engine/src/task_discovery.rs\<close> and
  \<open>grace_monitor.rs\<close>: on every ledger advance the executable tasks are queried, cached and
  classified by window region.
\<close>

record GraceMonitor =
  gm_keeper_address :: string
  gm_pipeline :: ExecutionPipeline

definition GraceMonitor_new :: "string \<Rightarrow> ExecutionPipeline \<Rightarrow> GraceMonitor" where
  "GraceMonitor_new keeper pl = \<lparr>gm_keeper_address = keeper, gm_pipeline = pl\<rparr>"

definition parse_task_id_hex :: "('n, 'v) Platform \<Rightarrow> string \<Rightarrow> TaskId" where
  "parse_task_id_hex p hex =
     (let bytes = unwrap_or [] (hex_decode p hex); len = min (length bytes) 32
      in take len bytes @ drop len (replicate 32 0))"

definition log_missed :: "RemoteTask \<Rightarrow> u32 \<Rightarrow> ('n, unit) engine" where
  "log_missed task current_ledger =
     log_c (MissedExecution (task_id_hex task)
       (saturating_sub current_ledger (rt_next_allowed_execution task))
       (rt_next_allowed_execution task) current_ledger)"

definition evaluate ::
  "('n, 'v) Platform \<Rightarrow> GraceMonitor \<Rightarrow> RemoteTask \<Rightarrow> u32 \<Rightarrow> ('n, unit) engine" where
  "evaluate p gm task current_ledger =
     (let ledgers_elapsed = saturating_sub current_ledger (rt_next_allowed_execution task) in
      if 50 < ledgers_elapsed then log_missed task current_ledger
      else if gm_keeper_address gm = rt_designated_keeper task then skip_c
      else
        bind_c (gets_c (\<lambda>s. contains_task (parse_task_id_hex p (task_id_hex task)) (in_flight s))) (\<lambda>flying.
        if flying then skip_c
        else
          bind_c (log_c (DispatchingAsSecondary (task_id_hex task) ledgers_elapsed (gm_keeper_address gm))) (\<lambda>_.
          dispatch p (gm_pipeline gm) task Secondary)))"

record TaskDiscovery =
  td_rpc :: RpcClient
  td_anchor_contract_address :: string
  td_keeper_address :: string
  td_pipeline :: ExecutionPipeline
  td_grace_monitor :: GraceMonitor
  td_task_query_timeout :: Duration

definition TaskDiscovery_new ::
  "RpcClient \<Rightarrow> string \<Rightarrow> string \<Rightarrow> ExecutionPipeline \<Rightarrow> GraceMonitor \<Rightarrow> Duration \<Rightarrow> TaskDiscovery" where
  "TaskDiscovery_new rpc anchor keeper pl gm query_timeout =
     \<lparr>td_rpc = rpc, td_anchor_contract_address = anchor, td_keeper_address = keeper,
      td_pipeline = pl, td_grace_monitor = gm, td_task_query_timeout = query_timeout\<rparr>"

definition parse_hex :: "('n, 'v) Platform \<Rightarrow> string \<Rightarrow> TaskId" where
  "parse_hex p hex =
     (let bytes = unwrap_or [] (hex_decode p hex); len = min (length bytes) 32
      in take len bytes @ drop len (replicate 32 0))"

definition classify_and_dispatch ::
  "('n, 'v) Platform \<Rightarrow> TaskDiscovery \<Rightarrow> RemoteTask \<Rightarrow> u32 \<Rightarrow> ('n, unit) engine" where
  "classify_and_dispatch p td task current_ledger =
     bind_c (gets_c (\<lambda>s. contains_task (parse_hex p (task_id_hex task)) (in_flight s))) (\<lambda>flying.
     if flying then skip_c
     else
       let next = rt_next_allowed_execution task;
           window_end = unwrap_c ADD_OVERFLOW (uadd (build p) next 50) in
       if current_ledger = next \<and> rt_designated_keeper task = td_keeper_address td then
         dispatch p (td_pipeline td) task Designated
       else
         bind_c (if next < current_ledger
                 then bind_c window_end (\<lambda>limit. return_c (current_ledger \<le> limit))
                 else return_c False) (\<lambda>in_grace.
         if in_grace then evaluate p (td_grace_monitor td) task current_ledger
         else
           bind_c window_end (\<lambda>limit.
           if limit < current_ledger then
             bind_c (log_missed task current_ledger) (\<lambda>_.
             dispatch p (td_pipeline td) task PostGraceRole)
           else skip_c)))"

fun classify_all ::
  "('n, 'v) Platform \<Rightarrow> TaskDiscovery \<Rightarrow> RemoteTask list \<Rightarrow> u32 \<Rightarrow> ('n, unit) engine" where
  "classify_all p td [] current_ledger = skip_c"
| "classify_all p td (task # rest) current_ledger =
     bind_c (classify_and_dispatch p td task current_ledger) (\<lambda>_. classify_all p td rest current_ledger)"

definition update_cache :: "RemoteTask list \<Rightarrow> ('n, unit) engine" where
  "update_cache found = modify_c (\<lambda>s. s\<lparr>task_cache :=
     fold (\<lambda>task cache. cache(task_id_hex task \<mapsto> task)) found (task_cache s)\<rparr>)"

text \<open>What a ledger advance does with the tasks the query found.\<close>

definition process_found ::
  "('n, 'v) Platform \<Rightarrow> TaskDiscovery \<Rightarrow> RemoteTask list \<Rightarrow> u32 \<Rightarrow> ('n, unit) engine" where
  "process_found p td found current_ledger =
     bind_c (if found \<noteq> [] then log_c (DiscoveredTasks current_ledger (length found)) else skip_c) (\<lambda>_.
     bind_c (update_cache found) (\<lambda>_.
     classify_all p td found current_ledger))"

definition on_ledger_advance ::
  "('n, 'v) Platform \<Rightarrow> TaskDiscovery \<Rightarrow> u32 \<Rightarrow> ('n, unit) engine" where
  "on_ledger_advance p td current_ledger =
     bind_c (timeout_c p (td_task_query_timeout td)
       (query_executable_tasks p (td_rpc td) (td_anchor_contract_address td) current_ledger)) (\<lambda>r.
     case r of
       Some (Inr found) \<Rightarrow> process_found p td found current_ledger
     | Some (Inl e) \<Rightarrow> log_c (TaskQueryError current_ledger e)
     | None \<Rightarrow> log_c (TaskQueryTimedOut current_ledger (td_task_query_timeout td)))"

text \<open>
  The loop of \<open>run\<close>, over what the broadcast receiver yields.  It ends when the channel is closed;
  the end of the list is a receiver still waiting.
\<close>

datatype RecvResult = Received LedgerEvent | RecvLagged u64 | RecvClosed

fun discovery_run ::
  "('n, 'v) Platform \<Rightarrow> TaskDiscovery \<Rightarrow> RecvResult list \<Rightarrow> ('n, unit) engine" where
  "discovery_run p td [] = skip_c"
| "discovery_run p td (Received (Advance seq) # rest) =
     bind_c (on_ledger_advance p td seq) (\<lambda>_. discovery_run p td rest)"
| "discovery_run p td (RecvLagged n # rest) =
     bind_c (log_c (Lagged n)) (\<lambda>_. discovery_run p td rest)"
| "discovery_run p td (RecvClosed # rest) = log_c ChannelClosed"

section \<open>The decision\<close>

lemma parsers_agree: "parse_hex = parse_task_id" "parse_task_id_hex = parse_task_id"
  by (simp_all add: fun_eq_iff parse_hex_def parse_task_id_hex_def parse_task_id_def)

lemma elapsed_unat: "next \<le> current \<Longrightarrow> unat (saturating_sub current next) = unat current - unat next"
  by (simp add: saturating_sub_def unat_sub not_less)

lemma window_end_ok:
  "unat (next :: u32) + 50 < 2 ^ 32 \<Longrightarrow> uadd b next 50 = Some (next + 50) \<and> unat (next + 50) = unat next + 50"
  by (simp add: uadd_no_overflow uadd_Some_unat)

text \<open>Away from the last ledger numbers, the classification follows the distance to the schedule.\<close>

lemma classify_eq:
  assumes new: "\<not> contains_task (parse_task_id p (task_id_hex task)) (in_flight s)"
    and room: "unat (rt_next_allowed_execution task) + 50 < 2 ^ 32"
  shows "classify_and_dispatch p td task current s =
    (let n = unat (rt_next_allowed_execution task); c = unat current in
     if c = n \<and> rt_designated_keeper task = td_keeper_address td
       then dispatch p (td_pipeline td) task Designated s
     else if n < c \<and> c \<le> n + 50 then evaluate p (td_grace_monitor td) task current s
     else if n + 50 < c then bind_c (log_missed task current) (\<lambda>_. dispatch p (td_pipeline td) task PostGraceRole) s
     else (Ok (), s))"
proof -
  have le: "current \<le> rt_next_allowed_execution task + 50 \<longleftrightarrow> unat current \<le> unat (rt_next_allowed_execution task) + 50"
    "rt_next_allowed_execution task + 50 < current \<longleftrightarrow> unat (rt_next_allowed_execution task) + 50 < unat current"
    using window_end_ok [OF room] by (simp_all add: word_le_nat_alt word_less_nat_alt)
  have lt: "rt_next_allowed_execution task < current \<longleftrightarrow> unat (rt_next_allowed_execution task) < unat current"
    and eq: "current = rt_next_allowed_execution task \<longleftrightarrow> unat current = unat (rt_next_allowed_execution task)"
    by (simp_all add: word_less_nat_alt word_unat_eq_iff)
  show ?thesis
    using new window_end_ok [OF room]
    by (simp add: classify_and_dispatch_def parsers_agree comp_simps Let_def le lt eq)
qed

lemma evaluate_eq:
  assumes new: "\<not> contains_task (parse_task_id p (task_id_hex task)) (in_flight s)"
    and "unat (rt_next_allowed_execution task) < unat current"
    and "unat current \<le> unat (rt_next_allowed_execution task) + 50"
  shows "evaluate p gm task current s =
    (if gm_keeper_address gm = rt_designated_keeper task then (Ok (), s)
     else dispatch p (gm_pipeline gm) task Secondary
       (s\<lparr>log := log s @ [DispatchingAsSecondary (task_id_hex task)
           (saturating_sub current (rt_next_allowed_execution task)) (gm_keeper_address gm)]\<rparr>))"
proof -
  have "\<not> 50 < saturating_sub current (rt_next_allowed_execution task)"
    using assms elapsed_unat [of "rt_next_allowed_execution task" current]
    by (simp add: word_less_nat_alt word_le_nat_alt)
  with new show ?thesis by (simp add: evaluate_def parsers_agree comp_simps Let_def)
qed

section \<open>Processing the found tasks\<close>

text \<open>
  The bounds under which a dispatch of the component's pipeline returns, and the effect of a
  computation that makes at most \<open>n\<close> submissions.
\<close>

definition dispatchable :: "TaskDiscovery \<Rightarrow> bool" where
  "dispatchable td \<longleftrightarrow> gm_pipeline (td_grace_monitor td) = td_pipeline td \<and>
     unat (pl_retry_backoff_max (td_pipeline td)) \<le> 2 ^ 62 \<and>
     unat (pl_retry_backoff_initial (td_pipeline td)) \<le> unat (pl_retry_backoff_max (td_pipeline td))"

lemma dispatchable_pipeline: "dispatchable td \<Longrightarrow> gm_pipeline (td_grace_monitor td) = td_pipeline td"
  by (simp add: dispatchable_def)

definition submits :: "nat \<Rightarrow> 'n Engine \<Rightarrow> (EngineError, unit) outcome \<times> 'n Engine \<Rightarrow> bool" where
  "submits n s r \<longleftrightarrow> (\<exists>l s'. r = (Ok (), s') \<and> attempted s l s' \<and> sends l \<le> n)"

lemma attempted_log: "attempted s [ev] (s\<lparr>log := log s @ [ev]\<rparr>)"
  by (simp add: attempted_def)

lemma submits_none [simp]: "submits n s (Ok (), s)"
  unfolding submits_def by (intro exI [of _ "[]"] exI [of _ s]) (simp add: attempted_def)

lemma submits_log: "ev \<noteq> RpcCall ''sendTransaction'' \<Longrightarrow> submits n s (Ok (), s\<lparr>log := log s @ [ev]\<rparr>)"
  unfolding submits_def using attempted_log [of s ev] by (intro exI [of _ "[ev]"]) auto

lemma submits_after_log:
  "ev \<noteq> RpcCall ''sendTransaction'' \<Longrightarrow> submits n (s\<lparr>log := log s @ [ev]\<rparr>) r \<Longrightarrow> submits n s r"
  unfolding submits_def using attempted_trans [OF attempted_log [of s ev]] by fastforce

lemma submits_trans: "submits m s (Ok (), s') \<Longrightarrow> submits n s' r \<Longrightarrow> submits (m + n) s r"
  unfolding submits_def by (fastforce intro: attempted_trans)

definition attempts :: "TaskDiscovery \<Rightarrow> nat" where
  "attempts td = unat (pl_max_retries (td_pipeline td)) + 1"

lemma dispatch_submits:
  "deadline s = None \<Longrightarrow> dispatchable td \<Longrightarrow> submits (attempts td) s (dispatch p (td_pipeline td) task role s)"
  using dispatch_run [of s "td_pipeline td" p task role] by (auto simp: dispatchable_def submits_def attempts_def)

lemma dispatch_after_log:
  "deadline s = None \<Longrightarrow> dispatchable td \<Longrightarrow> ev \<noteq> RpcCall ''sendTransaction'' \<Longrightarrow>
     submits (attempts td) s (dispatch p (td_pipeline td) task role (s\<lparr>log := log s @ [ev]\<rparr>))"
  using dispatch_submits [of "s\<lparr>log := log s @ [ev]\<rparr>" td p task role] by (auto intro: submits_after_log)

lemma evaluate_submits:
  "deadline s = None \<Longrightarrow> dispatchable td \<Longrightarrow>
     submits (attempts td) s (evaluate p (td_grace_monitor td) task current s)"
  by (simp add: evaluate_def Let_def comp_simps log_missed_def dispatchable_pipeline submits_log dispatch_after_log)

lemma classify_submits:
  assumes free: "deadline s = None" and td: "dispatchable td"
    and room: "build p = Release \<or> unat (rt_next_allowed_execution task) + 50 < 2 ^ 32"
  shows "submits (attempts td) s (classify_and_dispatch p td task current s)"
proof -
  from room obtain limit where "uadd (build p) (rt_next_allowed_execution task) 50 = Some limit"
    by (auto simp: uadd_def)
  then show ?thesis
    by (simp add: classify_and_dispatch_def Let_def comp_simps log_missed_def free td
        dispatch_submits evaluate_submits dispatch_after_log)
qed

definition windows_fit :: "('n, 'v) Platform \<Rightarrow> RemoteTask list \<Rightarrow> bool" where
  "windows_fit p found \<longleftrightarrow> build p = Release \<or>
     (\<forall>task \<in> set found. unat (rt_next_allowed_execution task) + 50 < 2 ^ 32)"

lemma windows_fit_Cons [simp]:
  "windows_fit p (task # rest) \<longleftrightarrow>
     (build p = Release \<or> unat (rt_next_allowed_execution task) + 50 < 2 ^ 32) \<and> windows_fit p rest"
  by (auto simp: windows_fit_def)

lemma classify_all_submits:
  "deadline s = None \<Longrightarrow> dispatchable td \<Longrightarrow> windows_fit p found \<Longrightarrow>
     submits (length found * attempts td) s (classify_all p td found current s)"
proof (induction found arbitrary: s)
  case (Cons task rest)
  then have one: "submits (attempts td) s (classify_and_dispatch p td task current s)"
    by (simp add: classify_submits)
  then obtain s1 where run: "classify_and_dispatch p td task current s = (Ok (), s1)"
    and "deadline s1 = deadline s" by (auto simp: submits_def attempted_def)
  then have "submits (length rest * attempts td) s1 (classify_all p td rest current s1)"
    using Cons by simp
  from submits_trans [OF one [unfolded run] this] run show ?case by (simp add: comp_simps)
qed (simp add: comp_simps)

text \<open>
  What one task leaves in the log: nothing, or the announcement of its role followed by a complete run
  of the attempt machine.
\<close>

fun announcement :: "TaskDiscovery \<Rightarrow> u32 \<Rightarrow> RemoteTask \<Rightarrow> ExecutionRole \<Rightarrow> LogEvent list" where
  "announcement td current task Designated = []"
| "announcement td current task Secondary = [DispatchingAsSecondary (task_id_hex task)
     (saturating_sub current (rt_next_allowed_execution task)) (gm_keeper_address (td_grace_monitor td))]"
| "announcement td current task PostGraceRole = [MissedExecution (task_id_hex task)
     (saturating_sub current (rt_next_allowed_execution task)) (rt_next_allowed_execution task) current]"

definition handled :: "TaskDiscovery \<Rightarrow> u32 \<Rightarrow> RemoteTask \<Rightarrow> LogEvent list \<Rightarrow> bool" where
  "handled td current task l \<longleftrightarrow> l = [] \<or>
     (\<exists>role run. l = announcement td current task role @ run \<and>
        attempt_run (td_pipeline td) task role (Submitting 0) run Finished)"

definition handles ::
  "TaskDiscovery \<Rightarrow> u32 \<Rightarrow> RemoteTask \<Rightarrow> 'n Engine \<Rightarrow> (EngineError, unit) outcome \<times> 'n Engine \<Rightarrow> bool" where
  "handles td current task s r \<longleftrightarrow>
     (\<exists>l s'. r = (Ok (), s') \<and> log s' = log s @ l \<and> handled td current task l)"

lemma handles_none: "handles td current task s (Ok (), s)"
  by (simp add: handles_def handled_def)

lemma dispatch_handles:
  assumes "deadline s = None" and "dispatchable td"
    and "\<not> contains_task (parse_task_id p (task_id_hex task)) (in_flight s)"
  shows "handles td current task s
    (dispatch p (td_pipeline td) task role (s\<lparr>log := log s @ announcement td current task role\<rparr>))"
proof -
  let ?s = "s\<lparr>log := log s @ announcement td current task role\<rparr>"
  from dispatch_attempts [of ?s "td_pipeline td" p task role] assms obtain l s' where
    "dispatch p (td_pipeline td) task role ?s = (Ok (), s')" and "attempted ?s l s'"
    and "attempt_run (td_pipeline td) task role (Submitting 0) l Finished"
    by (auto simp: dispatchable_def)
  then show ?thesis
    unfolding handles_def handled_def attempted_def
    by (intro exI [of _ "announcement td current task role @ l"] exI [of _ s']) (simp, blast)
qed

lemma grace_elapsed:
  fixes n c :: u32
  assumes "uadd b n 50 = Some limit" and "n < c" and "c \<le> limit"
  shows "\<not> 50 < saturating_sub c n"
proof -
  from assms(1) have "limit = n + 50" by (simp add: uadd_def split: if_splits)
  moreover have "unat (n + 50) \<le> unat n + 50"
    by (simp add: unat_word_ariths)
  ultimately have "unat c \<le> unat n + 50" using assms(3) by (simp add: word_le_nat_alt)
  with elapsed_unat [OF less_imp_le [OF assms(2)]] show ?thesis
    by (simp add: word_less_nat_alt)
qed

lemma classify_handles:
  assumes free: "deadline s = None" and td: "dispatchable td"
    and room: "build p = Release \<or> unat (rt_next_allowed_execution task) + 50 < 2 ^ 32"
  shows "handles td current task s (classify_and_dispatch p td task current s)"
proof (cases "contains_task (parse_task_id p (task_id_hex task)) (in_flight s)")
  case True
  then show ?thesis
    by (simp add: classify_and_dispatch_def parsers_agree comp_simps handles_none)
next
  case False
  from room obtain limit where limit: "uadd (build p) (rt_next_allowed_execution task) 50 = Some limit"
    by (auto simp: uadd_def)
  note disp = dispatch_handles [OF free td False, of current]
  show ?thesis
  proof (cases "current = rt_next_allowed_execution task \<and> rt_designated_keeper task = td_keeper_address td")
    case True
    then have "classify_and_dispatch p td task current s = dispatch p (td_pipeline td) task Designated s"
      using False by (simp add: classify_and_dispatch_def parsers_agree Let_def comp_simps)
    with disp [of Designated] show ?thesis by simp
  next
    case other: False
    show ?thesis
    using False other disp [of Secondary] disp [of PostGraceRole] grace_elapsed [OF limit, of current]
      limit dispatchable_pipeline [OF td]
    by (auto simp: classify_and_dispatch_def evaluate_def parsers_agree Let_def comp_simps log_missed_def
        handles_none)
  qed
qed

lemma classify_all_handles:
  "deadline s = None \<Longrightarrow> dispatchable td \<Longrightarrow> windows_fit p found \<Longrightarrow>
     \<exists>ls s'. classify_all p td found current s = (Ok (), s') \<and> log s' = log s @ concat ls \<and>
       list_all2 (handled td current) found ls"
proof (induction found arbitrary: s)
  case (Cons task rest)
  then have room: "build p = Release \<or> unat (rt_next_allowed_execution task) + 50 < 2 ^ 32" by simp
  from classify_handles [OF Cons.prems(1,2) room, of current] obtain l s1 where
    run: "classify_and_dispatch p td task current s = (Ok (), s1)" and l: "log s1 = log s @ l" "handled td current task l"
    by (auto simp: handles_def)
  have "deadline s1 = None"
    using classify_submits [OF Cons.prems(1,2) room, of current] run Cons.prems(1)
    by (auto simp: submits_def attempted_def)
  from Cons.IH [OF this Cons.prems(2)] Cons.prems(3) obtain ls s' where "classify_all p td rest current s1 = (Ok (), s')" "log s' = log s1 @ concat ls"
    "list_all2 (handled td current) rest ls" by auto
  with run l show ?case by (intro exI [of _ "l # ls"] exI [of _ s']) (simp add: comp_simps)
qed (simp add: comp_simps)

lemma cache_fold:
  "(fold (\<lambda>task cache. cache(task_id_hex task \<mapsto> task)) found m) key =
     (if \<exists>task \<in> set found. task_id_hex task = key
      then Some (last (filter (\<lambda>task. task_id_hex task = key) found)) else m key)"
  by (induction found rule: rev_induct) auto

lemma process_found_run:
  assumes free: "deadline s = None" and td: "dispatchable td" and room: "windows_fit p found"
  shows "\<exists>l ls s'. process_found p td found current s = (Ok (), s') \<and> in_flight s' = in_flight s \<and>
    log s' = log s @ l \<and> sends l \<le> length found * attempts td \<and>
    l = (if found \<noteq> [] then [DiscoveredTasks current (length found)] else []) @ concat ls \<and>
    list_all2 (handled td current) found ls \<and>
    (\<forall>key. task_cache s' key =
       (if \<exists>task \<in> set found. task_id_hex task = key
        then Some (last (filter (\<lambda>task. task_id_hex task = key) found)) else task_cache s key))"
proof -
  let ?pre = "if found \<noteq> [] then [DiscoveredTasks current (length found)] else []"
  let ?s = "s\<lparr>log := log s @ ?pre, task_cache := fold (\<lambda>task cache. cache(task_id_hex task \<mapsto> task)) found (task_cache s)\<rparr>"
  have run: "process_found p td found current s = classify_all p td found current ?s"
    by (cases "found = []") (simp_all add: process_found_def update_cache_def comp_simps)
  from classify_all_submits [of ?s td p found current] free td room obtain l s' where
    s': "classify_all p td found current ?s = (Ok (), s')" and att: "attempted ?s l s'"
    and sends: "sends l \<le> length found * attempts td"
    by (auto simp: submits_def)
  moreover from classify_all_handles [of ?s td p found current] free td room s' obtain ls where
    ls: "log s' = log ?s @ concat ls" "list_all2 (handled td current) found ls" by auto
  moreover have "l = concat ls" using att ls(1) by (simp add: attempted_def)
  moreover have "in_flight s' = in_flight s" "task_cache s' = task_cache ?s" "sends ?pre = 0"
    using att by (simp_all add: attempted_def)
  ultimately show ?thesis
    unfolding run by (intro exI [of _ "?pre @ l"] exI [of _ ls] exI [of _ s']) (simp add: cache_fold)
qed

section \<open>Properties\<close>

definition demo_discovery :: TaskDiscovery where
  "demo_discovery = \<lparr>td_rpc = demo_rpc, td_anchor_contract_address = ''CANCHOR'', td_keeper_address = ''GKEEPER'',
     td_pipeline = demo_pipeline 3,
     td_grace_monitor = \<lparr>gm_keeper_address = ''GKEEPER'', gm_pipeline = demo_pipeline 3\<rparr>,
     td_task_query_timeout = 10\<rparr>"

text \<open>
  The three copies of the identifier parser agree and always give 32 bytes, so discovery, grace
  monitor and pipeline look a task up in the in-flight set under the same key; a decoded text of 32
  bytes is kept as it is.
\<close>

lemma identifier_parsers_agree:
  "parse_hex p hex = parse_task_id p hex" "parse_task_id_hex p hex = parse_task_id p hex"
  "length (parse_task_id p hex) = 32"
  "hex_decode p hex = Some bytes \<Longrightarrow> length bytes = 32 \<Longrightarrow> parse_task_id p hex = bytes"
  by (simp_all add: parsers_agree parse_task_id_def Let_def)

lemma advance_does_nothing: "deadline s = None \<Longrightarrow> on_ledger_advance p td seq s = (Ok (), s)"
  by (simp add: on_ledger_advance_def timeout_c_def query_executable_tasks_def process_found_def update_cache_def
      comp_simps bind_c_def)

lemma discovery_run_log:
  "deadline s = None \<Longrightarrow> \<exists>l. discovery_run p td received s = (Ok (), s\<lparr>log := log s @ l\<rparr>) \<and>
     set l \<subseteq> insert ChannelClosed (range Lagged)"
proof (induction p td received arbitrary: s rule: discovery_run.induct)
  case (1 p td)
  show ?case by (rule exI [of _ "[]"]) (simp add: comp_simps)
next
  case (2 p td seq rest)
  then show ?case by (simp add: comp_simps advance_does_nothing)
next
  case (3 p td n rest)
  from 3(1) [of "s\<lparr>log := log s @ [Lagged n]\<rparr>"] 3(2) obtain l where
    "discovery_run p td rest (s\<lparr>log := log s @ [Lagged n]\<rparr>) = (Ok (), s\<lparr>log := log s @ Lagged n # l\<rparr>)"
    "set l \<subseteq> insert ChannelClosed (range Lagged)" by auto
  then show ?case by (intro exI [of _ "Lagged n # l"]) (simp add: comp_simps)
next
  case (4 p td rest)
  show ?case by (rule exI [of _ "[ChannelClosed]"]) (simp add: comp_simps)
qed

text \<open>
  C36: the grace window of the last 50 ledger numbers.  When \<open>next_allowed_execution + 50\<close> does not
  fit 32 bits, an overdue task makes the \<open>dev\<close> build panic and the \<open>release\<close> build treat the grace
  period as over: it reports a missed execution and dispatches in the post-grace role.
\<close>
theorem window_end_overflow:
  assumes "2 ^ 32 \<le> unat (rt_next_allowed_execution task) + 50"
    and "rt_next_allowed_execution task < current"
    and "\<not> contains_task (parse_task_id p (task_id_hex task)) (in_flight s)"
  shows "classify_and_dispatch p td task current s =
    (if build p = Dev then (Panic ADD_OVERFLOW, s)
     else dispatch p (td_pipeline td) task PostGraceRole
       (s\<lparr>log := log s @ [MissedExecution (task_id_hex task)
          (saturating_sub current (rt_next_allowed_execution task)) (rt_next_allowed_execution task) current]\<rparr>))"
proof (cases "build p")
  case Dev
  with assms show ?thesis
    by (auto simp: classify_and_dispatch_def parsers_agree comp_simps Let_def uadd_def bind_c_def)
next
  case Release
  let ?n = "rt_next_allowed_execution task"
  have "unat ?n < 2 ^ 32" using unsigned_less [of ?n] by simp
  then have "unat (?n + 50) < unat ?n"
    using assms(1) by (simp add: unat_word_ariths le_mod_geq)
  then have "?n + 50 < current" "\<not> current \<le> ?n + 50"
    using assms(2) by (simp_all add: word_less_nat_alt word_le_nat_alt)
  with Release assms show ?thesis
    by (auto simp: classify_and_dispatch_def parsers_agree comp_simps Let_def uadd_def log_missed_def)
qed

theorem window_end_overflow_witness:
  "classify_and_dispatch (demo_platform Dev) demo_discovery
     (demo_task\<lparr>rt_next_allowed_execution := 4294967290\<rparr>) 4294967292 (demo_engine []) =
   (Panic ADD_OVERFLOW, demo_engine [])"
  using window_end_overflow [of "demo_task\<lparr>rt_next_allowed_execution := 4294967290\<rparr>" 4294967292
      "demo_platform Dev" "demo_engine []" demo_discovery]
  by (simp add: demo_engine_def demo_platform_def contains_task_def)

end
