(* ===== verification/Engine_Poller.thy ===== *)
theory Engine_Poller
  imports Engine_InFlight Engine_Sandbox
begin

text \<open>
  The ledger poller, \<open>the-engine/src/ledger_poller.rs\<close>.  The poller's loop never ends;
  \<open>poll_run n\<close> is its first \<open>n\<close> iterations, with the two local variables of the loop passed along.  Sending on the broadcast channel never fails
  visibly (the result is discarded), so the channel is the list of events sent.
\<close>

record LedgerPoller =
  lp_rpc :: RpcClient
  lp_poll_interval :: Duration
  lp_retry_backoff_initial :: Duration
  lp_retry_backoff_max :: Duration

definition LedgerPoller_new :: "RpcClient \<Rightarrow> Duration \<Rightarrow> Duration \<Rightarrow> Duration \<Rightarrow> LedgerPoller" where
  "LedgerPoller_new rpc interval initial cap =
     \<lparr>lp_rpc = rpc, lp_poll_interval = interval, lp_retry_backoff_initial = initial,
      lp_retry_backoff_max = cap\<rparr>"

definition last_known :: "'n Engine \<Rightarrow> u32" where
  "last_known s = last_known_ledger s"

definition poll_failed ::
  "('n, 'v) Platform \<Rightarrow> LedgerPoller \<Rightarrow> TransientError \<Rightarrow> Duration \<Rightarrow> u32 \<Rightarrow> ('n, Duration \<times> u32) engine" where
  "poll_failed p lp e backoff consecutive_errors =
     bind_c (unwrap_c ADD_OVERFLOW (uadd (build p) consecutive_errors 1)) (\<lambda>errors.
     bind_c (log_c (case e of
         RpcTimeout \<Rightarrow> TransientRpcError errors backoff
       | ConnectionReset \<Rightarrow> TransientRpcError errors backoff
       | _ \<Rightarrow> LedgerPollError e errors backoff)) (\<lambda>_.
     bind_c (sleep_c p backoff) (\<lambda>_.
     bind_c (unwrap_c DURATION_OVERFLOW (next_backoff (lp_retry_backoff_max lp) backoff)) (\<lambda>backoff'.
     return_c (backoff', errors)))))"

definition poll_once ::
  "('n, 'v) Platform \<Rightarrow> LedgerPoller \<Rightarrow> Duration \<Rightarrow> u32 \<Rightarrow> ('n, Duration \<times> u32) engine" where
  "poll_once p lp backoff consecutive_errors =
     bind_c (sleep_c p (lp_poll_interval lp)) (\<lambda>_.
     bind_c (try_c (get_latest_ledger p (lp_rpc lp))) (\<lambda>r.
     case r of
       Inr seq \<Rightarrow>
         bind_c (if 0 < consecutive_errors
                 then bind_c (log_c (ConnectivityRestored seq)) (\<lambda>_. return_c (lp_retry_backoff_initial lp, 0))
                 else return_c (backoff, consecutive_errors)) (\<lambda>locals.
         bind_c (gets_c last_known_ledger) (\<lambda>prev.
         bind_c (if prev < seq
                 then bind_c (modify_c (\<lambda>s. s\<lparr>last_known_ledger := seq\<rparr>)) (\<lambda>_.
                      bind_c (modify_c (\<lambda>s. s\<lparr>broadcasts := broadcasts s @ [Advance seq]\<rparr>)) (\<lambda>_.
                      log_c (LedgerAdvanceDetected seq)))
                 else skip_c) (\<lambda>_.
         return_c locals)))
     | Inl e \<Rightarrow> poll_failed p lp e backoff consecutive_errors))"

fun poll_run ::
  "('n, 'v) Platform \<Rightarrow> LedgerPoller \<Rightarrow> nat \<Rightarrow> Duration \<Rightarrow> u32 \<Rightarrow> ('n, Duration \<times> u32) engine" where
  "poll_run p lp 0 backoff errors = return_c (backoff, errors)"
| "poll_run p lp (Suc n) backoff errors =
     bind_c (poll_once p lp backoff errors) (\<lambda>(backoff', errors'). poll_run p lp n backoff' errors')"

definition run_poller :: "('n, 'v) Platform \<Rightarrow> LedgerPoller \<Rightarrow> nat \<Rightarrow> ('n, Duration \<times> u32) engine" where
  "run_poller p lp iterations = poll_run p lp iterations (lp_retry_backoff_initial lp) 0"

section \<open>One iteration\<close>

text \<open>
  The poller's loop invariant, between a first and a later state: nothing but the ledger counter,
  the channel, the log and the network changed; what was sent is strictly increasing, starts above
  the first counter and ends at the current one.
\<close>

fun ledger_of :: "LedgerEvent \<Rightarrow> nat" where
  "ledger_of (Advance seq) = unat seq"

definition advanced :: "'n Engine \<Rightarrow> LedgerEvent list \<Rightarrow> 'n Engine \<Rightarrow> bool" where
  "advanced s evs s' \<longleftrightarrow> broadcasts s' = broadcasts s @ evs \<and> deadline s' = deadline s \<and>
     in_flight s' = in_flight s \<and> last_confirmed_ts s' = last_confirmed_ts s \<and> task_cache s' = task_cache s \<and>
     sorted_wrt (<) (unat (last_known_ledger s) # map ledger_of evs) \<and>
     unat (last_known_ledger s') = last (unat (last_known_ledger s) # map ledger_of evs)"

lemma advanced_refl: "advanced s [] s"
  by (simp add: advanced_def)

lemma last_Cons_append: "last (x # xs @ ys) = last (last (x # xs) # ys)"
  by (cases ys) auto

lemma sorted_le_last: "sorted_wrt (<) (x # xs) \<Longrightarrow> a \<in> set (x # xs) \<Longrightarrow> a \<le> last (x # (xs :: nat list))"
proof (induction xs arbitrary: x a)
  case (Cons y ys)
  from Cons.IH [of y y] Cons.IH [of y a] Cons.prems show ?case
    by (auto simp del: last.simps simp: last_ConsR)
qed simp

lemma sorted_wrt_chain:
  fixes x :: nat
  assumes "sorted_wrt (<) (x # xs)" and "sorted_wrt (<) (last (x # xs) # ys)"
  shows "sorted_wrt (<) (x # xs @ ys)"
proof -
  have "a \<le> last (x # xs)" if "a \<in> set (x # xs)" for a
    using assms(1) that by (rule sorted_le_last)
  with assms show ?thesis by (fastforce simp: sorted_wrt_append)
qed

lemma advanced_trans: "advanced s evs s' \<Longrightarrow> advanced s' evs' s'' \<Longrightarrow> advanced s (evs @ evs') s''"
  unfolding advanced_def by (simp only: map_append last_Cons_append sorted_wrt_chain append_assoc)

lemma advanced_extends: "extends L s s' \<Longrightarrow> advanced s [] s'"
  by (auto simp: advanced_def extends_def)

lemma poll_failed_run:
  assumes free: "deadline s = None" and cap: "unat (lp_retry_backoff_max lp) \<le> 2 ^ 62"
    and b: "unat backoff \<le> unat (lp_retry_backoff_max lp)" and errs: "unat errors + 1 < 2 ^ 32"
  shows "\<exists>backoff' s'. poll_failed p lp e backoff errors s = (Ok (backoff', errors + 1), s') \<and>
    advanced s [] s' \<and> unat backoff' = min (unat backoff * 2) (unat (lp_retry_backoff_max lp))"
proof -
  from backoff.step_below [OF cap b] obtain b' where
    "next_backoff (lp_retry_backoff_max lp) backoff = Some b'"
    "unat b' = min (unat backoff * 2) (unat (lp_retry_backoff_max lp))" by blast
  then show ?thesis
    using free uadd_no_overflow [of errors 1 "build p"] errs
    by (auto simp: poll_failed_def comp_simps advanced_def)
qed

text \<open>The poll locals: no error pending means the backoff is the initial one.\<close>

definition locals_ok :: "LedgerPoller \<Rightarrow> Duration \<Rightarrow> u32 \<Rightarrow> bool" where
  "locals_ok lp backoff errors \<longleftrightarrow> unat backoff \<le> unat (lp_retry_backoff_max lp) \<and>
     (errors = 0 \<longrightarrow> backoff = lp_retry_backoff_initial lp)"

text \<open>
  An iteration ends in the error arm, or it reads a ledger number: then the locals are reset if
  errors were pending, and an advance is sent if the number is new.
\<close>

lemma poll_once_cases:
  assumes free: "deadline s = None"
  obtains (failed) e s1 where "advanced s [] s1"
      and "poll_once p lp backoff errors s = poll_failed p lp e backoff errors s1"
  | (polled) evs s' where "advanced s evs s'"
      and "poll_once p lp backoff errors s =
        (Ok (if 0 < errors then (lp_retry_backoff_initial lp, 0) else (backoff, errors)), s')"
proof -
  let ?s = "s\<lparr>net := sleep_for p (lp_poll_interval lp) (net s)\<rparr>"
  have free': "deadline ?s = None" using free by simp
  obtain x s1 where run: "get_latest_ledger p (lp_rpc lp) ?s = (x, s1)" by fastforce
  from touches_free [OF touches_latest free' run]
  have "advanced ?s [] s1" and np: "\<forall>msg. x \<noteq> Panic msg" by (auto intro: advanced_extends)
  then have adv: "advanced s [] s1" by (simp add: advanced_def)
  show ?thesis
  proof (cases x)
    case (Err e)
    with run free have "poll_once p lp backoff errors s = poll_failed p lp e backoff errors s1"
      by (simp add: poll_once_def comp_simps)
    with adv show ?thesis by (rule failed)
  next
    case (Ok seq)
    let ?s2 = "if 0 < errors then s1\<lparr>log := log s1 @ [ConnectivityRestored seq]\<rparr> else s1"
    let ?s3 = "if last_known_ledger s1 < seq
      then ?s2\<lparr>last_known_ledger := seq, broadcasts := broadcasts s1 @ [Advance seq],
             log := log ?s2 @ [LedgerAdvanceDetected seq]\<rparr> else ?s2"
    let ?evs = "if last_known_ledger s1 < seq then [Advance seq] else []"
    have "advanced s ?evs ?s3"
      using adv by (auto simp: advanced_def word_less_nat_alt)
    moreover have "poll_once p lp backoff errors s =
        (Ok (if 0 < errors then (lp_retry_backoff_initial lp, 0) else (backoff, errors)), ?s3)"
      using Ok run free by (cases "0 < errors"; cases "last_known_ledger s1 < seq")
        (simp_all add: poll_once_def comp_simps)
    ultimately show ?thesis by (rule polled)
  qed (use np in simp)
qed

lemma poll_once_run:
  assumes free: "deadline s = None" and cap: "unat (lp_retry_backoff_max lp) \<le> 2 ^ 62"
    and ini: "unat (lp_retry_backoff_initial lp) \<le> unat (lp_retry_backoff_max lp)"
    and ok: "locals_ok lp backoff errors" and errs: "unat errors + 1 < 2 ^ 32"
  shows "\<exists>backoff' errors' evs s'. poll_once p lp backoff errors s = (Ok (backoff', errors'), s') \<and>
    advanced s evs s' \<and> locals_ok lp backoff' errors' \<and> unat errors' \<le> unat errors + 1"
  using free
proof (cases rule: poll_once_cases [of s p lp backoff errors])
  case (failed e s1)
  have "deadline s1 = None" using failed(1) free by (simp add: advanced_def)
  from poll_failed_run [OF this cap _ errs, of backoff p e] ok obtain b' s' where
    r: "poll_failed p lp e backoff errors s1 = (Ok (b', errors + 1), s')" "advanced s1 [] s'"
    "unat b' \<le> unat (lp_retry_backoff_max lp)" by (auto simp: locals_ok_def)
  have e1: "unat (errors + 1) = unat errors + 1" using errs by (simp add: uadd_Some_unat)
  then have "errors + 1 \<noteq> 0" by (metis add_is_0 one_neq_zero unat_0)
  with r advanced_trans [OF failed(1) r(2)] failed(2) e1 show ?thesis
    by (intro exI [of _ b'] exI [of _ "errors + 1"] exI [of _ "[]"] exI [of _ s']) (simp add: locals_ok_def)
next
  case (polled evs s')
  then show ?thesis using ok ini
    by (cases "0 < errors") (auto simp: locals_ok_def intro!: exI [of _ evs])
qed

text \<open>
  Without the bound on the counter: an iteration completes with a capped backoff, or the \<open>dev\<close> build
  panics on the error that no longer fits 32 bits.
\<close>

lemma poll_once_any:
  assumes free: "deadline s = None" and cap: "unat (lp_retry_backoff_max lp) \<le> 2 ^ 62"
    and ini: "unat (lp_retry_backoff_initial lp) \<le> unat (lp_retry_backoff_max lp)"
    and b: "unat backoff \<le> unat (lp_retry_backoff_max lp)"
  obtains (completed) backoff' errors' evs s' where
      "poll_once p lp backoff errors s = (Ok (backoff', errors'), s')" and "advanced s evs s'"
      and "unat backoff' \<le> unat (lp_retry_backoff_max lp)"
  | (overflow) s' where "poll_once p lp backoff errors s = (Panic ADD_OVERFLOW, s')"
      and "advanced s [] s'" and "build p = Dev" and "unat errors + 1 = 2 ^ 32"
  using free
proof (cases rule: poll_once_cases [of s p lp backoff errors])
  case (failed e s1)
  have free1: "deadline s1 = None" using failed(1) free by (simp add: advanced_def)
  from backoff.step_below [OF cap b] obtain b' where
    b': "next_backoff (lp_retry_backoff_max lp) backoff = Some b'"
    "unat b' \<le> unat (lp_retry_backoff_max lp)" by auto
  show ?thesis
  proof (cases "uadd (build p) errors 1")
    case None
    then have "build p = Dev" and ge: "2 ^ 32 \<le> unat errors + 1"
      by (auto simp: uadd_def overflow_checks_def split: if_splits)
    moreover have "unat errors < 2 ^ 32" using unsigned_less [of errors] by simp
    with ge have "unat errors + 1 = 2 ^ 32" by simp
    ultimately show ?thesis using overflow failed None
      by (auto simp: poll_failed_def bind_c_def unwrap_c_def panic_c_def)
  next
    case (Some n)
    let ?ev = "case e of RpcTimeout \<Rightarrow> TransientRpcError n backoff | ConnectionReset \<Rightarrow> TransientRpcError n backoff
      | _ \<Rightarrow> LedgerPollError e n backoff"
    let ?s' = "s1\<lparr>log := log s1 @ [?ev], net := sleep_for p backoff (net s1)\<rparr>"
    have "poll_once p lp backoff errors s = (Ok (b', n), ?s')"
      using failed(2) Some b' free1 by (simp add: poll_failed_def comp_simps)
    moreover have "advanced s [] ?s'" using failed(1) by (simp add: advanced_def)
    ultimately show ?thesis using b'(2) by (rule completed)
  qed
next
  case (polled evs s')
  then show ?thesis using completed b ini by (auto split: if_splits)
qed

lemma poll_run_run:
  assumes cap: "unat (lp_retry_backoff_max lp) \<le> 2 ^ 62"
    and ini: "unat (lp_retry_backoff_initial lp) \<le> unat (lp_retry_backoff_max lp)"
  shows "deadline s = None \<Longrightarrow> locals_ok lp backoff errors \<Longrightarrow> unat errors + n < 2 ^ 32 \<Longrightarrow>
    \<exists>backoff' errors' evs s'. poll_run p lp n backoff errors s = (Ok (backoff', errors'), s') \<and>
      advanced s evs s' \<and> locals_ok lp backoff' errors'"
proof (induction n arbitrary: s backoff errors)
  case 0
  then show ?case by (auto simp: comp_simps intro: advanced_refl)
next
  case (Suc n)
  from poll_once_run [OF Suc.prems(1) cap ini Suc.prems(2), of p] Suc.prems(3) obtain b e evs s1 where
    one: "poll_once p lp backoff errors s = (Ok (b, e), s1)" and adv: "advanced s evs s1"
    and ok: "locals_ok lp b e" and le: "unat e \<le> unat errors + 1" by auto
  have "deadline s1 = None" using adv Suc.prems(1) by (simp add: advanced_def)
  from Suc.IH [OF this ok] le Suc.prems(3) obtain b' e' evs' s' where
    "poll_run p lp n b e s1 = (Ok (b', e'), s')" "advanced s1 evs' s'" "locals_ok lp b' e'" by fastforce
  with one advanced_trans [OF adv] show ?case
    by (intro exI [of _ b'] exI [of _ e'] exI [of _ "evs @ evs'"] exI [of _ s']) (simp add: comp_simps)
qed

section \<open>Properties\<close>

definition demo_poller :: LedgerPoller where
  "demo_poller = \<lparr>lp_rpc = demo_rpc, lp_poll_interval = 2, lp_retry_backoff_initial = 1, lp_retry_backoff_max = 60\<rparr>"

text \<open>
  C19: the poller.  Whatever the RPC endpoint answers, any number of iterations below \<open>2^32\<close> runs
  without a panic; the ledgers it broadcasts are strictly increasing and end at the shared counter;
  the backoff never exceeds the cap and is back at its initial value whenever no error is pending;
  no other shared state is touched.
\<close>
theorem poller_broadcasts_increasing:
  assumes "deadline s = None" and "unat (lp_retry_backoff_max lp) \<le> 60"
    and "unat (lp_retry_backoff_initial lp) \<le> unat (lp_retry_backoff_max lp)" and "n < 2 ^ 32"
  shows "\<exists>backoff errors evs s'. run_poller p lp n s = (Ok (backoff, errors), s') \<and>
    broadcasts s' = broadcasts s @ evs \<and>
    sorted_wrt (<) (unat (last_known s) # map ledger_of evs) \<and>
    unat (last_known s') = last (unat (last_known s) # map ledger_of evs) \<and>
    unat backoff \<le> unat (lp_retry_backoff_max lp) \<and> (errors = 0 \<longrightarrow> backoff = lp_retry_backoff_initial lp) \<and>
    in_flight s' = in_flight s \<and> task_cache s' = task_cache s"
proof -
  have cap: "unat (lp_retry_backoff_max lp) \<le> 2 ^ 62" using assms(2) by simp
  have "locals_ok lp (lp_retry_backoff_initial lp) 0" using assms(3) by (simp add: locals_ok_def)
  from poll_run_run [OF cap assms(3,1) this, of n p] assms(4) show ?thesis
    unfolding run_poller_def advanced_def locals_ok_def last_known_def by fastforce
qed

theorem poller_broadcasts_increasing_witness:
  "\<exists>r s'. run_poller (demo_platform Dev) demo_poller 5
     (demo_engine [result_reply [(''sequence'', JNum 7)], result_reply [(''sequence'', JNum 9)]]) = (Ok r, s') \<and>
     in_flight s' = {||}"
  using poller_broadcasts_increasing [of
      "demo_engine [result_reply [(''sequence'', JNum 7)], result_reply [(''sequence'', JNum 9)]]"
      demo_poller 5 "demo_platform Dev"]
  by (auto simp: demo_engine_def demo_poller_def)

end
