(* ===== verification/Engine_Health.thy ===== *)
theory Engine_Health
  imports Engine_InFlight
begin

text \<open>
  The health server, \<open>the-engine/src/health_server.rs\<close>.  \<open>HealthState\<close> holds handles to the shared
  ledger counter, the shared timestamp and the in-flight set, so the handler reads them off the
  engine state.  Binding the socket and the accept loop are axum and tokio: the bind result is a
  parameter of \<open>run\<close>, which is \<open>health_listen\<close> followed by \<open>health_serve\<close>, and the loop runs over what it meets, a request routed to \<open>GET /health\<close> or a
  failure of the server.  The end of that list is a server still listening.
\<close>

record HealthResponse =
  current_ledger :: u32
  last_execution_timestamp :: "i64 option"
  in_flight_count :: nat

definition health_handler :: "'n Engine \<Rightarrow> HealthResponse" where
  "health_handler s =
     (let ts_raw = last_confirmed_ts s in
      \<lparr>current_ledger = last_known_ledger s,
       last_execution_timestamp = (if ts_raw = 0 then None else Some ts_raw),
       in_flight_count = len_tasks (in_flight s)\<rparr>)"

record HealthServer =
  hs_port :: u16

definition HealthServer_new :: "u16 \<Rightarrow> HealthServer" where
  "HealthServer_new port = \<lparr>hs_port = port\<rparr>"

definition socket_addr :: "u16 \<Rightarrow> string" where
  "socket_addr port = ''0.0.0.0:'' @ decimal (unat port)"

text \<open>
  \<open>run\<close> up to the listening socket: one log line, then the bind, which panics when it fails.  A
  bind may consult and change the network.
\<close>

type_synonym 'n tcp_bind = "string \<Rightarrow> 'n \<Rightarrow> (string + unit) \<times> 'n"

definition BIND_FAILED :: "u16 \<Rightarrow> string \<Rightarrow> string" where
  "BIND_FAILED port e = ''failed to bind health server on port '' @ decimal (unat port) @ '': '' @ e"

definition health_listen :: "'n tcp_bind \<Rightarrow> HealthServer \<Rightarrow> ('n, unit) engine" where
  "health_listen bind hs =
     bind_c (log_c (HealthListening (hs_port hs) (socket_addr (hs_port hs)))) (\<lambda>_.
     bind_c (gets_c (\<lambda>s. bind (socket_addr (hs_port hs)) (net s))) (\<lambda>(r, n).
     bind_c (modify_c (\<lambda>s. s\<lparr>net := n\<rparr>)) (\<lambda>_.
     case r of
       Inl e \<Rightarrow> panic_c (BIND_FAILED (hs_port hs) e)
     | Inr _ \<Rightarrow> skip_c)))"

datatype ServeEvent = HealthRequest | ServeFailed string

definition SERVE_FAILED :: "string \<Rightarrow> string" where
  "SERVE_FAILED e = ''health server exited unexpectedly: '' @ e"

fun health_serve :: "ServeEvent list \<Rightarrow> ('n, HealthResponse list) engine" where
  "health_serve [] = return_c []"
| "health_serve (HealthRequest # rest) =
     bind_c (gets_c health_handler) (\<lambda>r.
     bind_c (health_serve rest) (\<lambda>rs. return_c (r # rs)))"
| "health_serve (ServeFailed e # rest) = panic_c (SERVE_FAILED e)"

section \<open>What the server can do\<close>

lemma health_listen_apply:
  "health_listen bind hs s =
     (let s1 = s\<lparr>log := log s @ [HealthListening (hs_port hs) (socket_addr (hs_port hs))]\<rparr>;
          (r, n) = bind (socket_addr (hs_port hs)) (net s)
      in (case r of Inl e \<Rightarrow> Panic (BIND_FAILED (hs_port hs) e) | Inr _ \<Rightarrow> Ok (), s1\<lparr>net := n\<rparr>))"
  by (simp add: health_listen_def comp_simps Let_def split: prod.splits sum.splits)

lemma health_serve_one:
  "health_serve [ev] s = (case ev of HealthRequest \<Rightarrow> Ok [health_handler s] | ServeFailed e \<Rightarrow> Panic (SERVE_FAILED e), s)"
  by (cases ev) (simp_all add: comp_simps)

end
