(* ===== verification/Engine_Main.thy ===== *)
theory Engine_Main
  imports Engine_Config Engine_Discovery Engine_Poller Engine_Health "HOL-Library.Sublist"
begin

text \<open>
  Start-up, \<open>the-engine/src/main.rs\<close>: configuration, keeper identity and the wiring of the
  components over the shared state.  The strkey codec and the Ed25519 key derivation are the fields
  of the parameter record \<open>Keys\<close>; \<open>process::exit\<close> ends the start-up with its exit code and what was
  written until then, log lines and the message on the error stream alike.  Spawning the components
  and everything after it is in \<open>Engine_System\<close>.
\<close>

record Keys =
  private_key_from_string :: "string \<Rightarrow> string + u8 list"
  verifying_key :: "u8 list \<Rightarrow> u8 list"
  public_key_to_string :: "u8 list \<Rightarrow> string"

record Components =
  pipeline :: ExecutionPipeline
  grace_monitor :: GraceMonitor
  poller :: LedgerPoller
  discovery :: TaskDiscovery
  health_server :: HealthServer

text \<open>
  \<open>derive_keypair\<close> answers the error text of the secret it cannot decode, for the message it prints
  before it exits.
\<close>

definition derive_keypair :: "Keys \<Rightarrow> string \<Rightarrow> string + (string \<times> u8 list)" where
  "derive_keypair k secret = (case private_key_from_string k secret of
       Inl e \<Rightarrow> Inl e
     | Inr private_key \<Rightarrow>
         Inr (public_key_to_string k (verifying_key k private_key), private_key))"

definition ExecutionPipeline_new ::
  "RpcClient \<Rightarrow> string \<Rightarrow> u8 list \<Rightarrow> string \<Rightarrow> Duration \<Rightarrow> Duration \<Rightarrow> Duration \<Rightarrow> u32 \<Rightarrow> ExecutionPipeline" where
  "ExecutionPipeline_new rpc keeper key anchor confirm initial cap retries =
     \<lparr>pl_rpc = rpc, pl_keeper_address = keeper, pl_signing_key_bytes = key,
      pl_anchor_contract_address = anchor, pl_confirmation_timeout = confirm,
      pl_retry_backoff_initial = initial, pl_retry_backoff_max = cap, pl_max_retries = retries\<rparr>"

definition wire :: "EngineConfig \<Rightarrow> string \<Rightarrow> u8 list \<Rightarrow> Components" where
  "wire cfg keeper_address signing_key_bytes =
     (let rpc = RpcClient_new (rpc_endpoint_url cfg) (task_query_timeout cfg);
          pl = ExecutionPipeline_new rpc keeper_address signing_key_bytes (anchor_contract_address cfg)
            (confirmation_timeout cfg) (retry_backoff_initial cfg) (retry_backoff_max cfg) (max_retries cfg);
          gm = GraceMonitor_new keeper_address pl
      in \<lparr>pipeline = pl, grace_monitor = gm,
          poller = LedgerPoller_new rpc (poll_interval cfg) (retry_backoff_initial cfg) (retry_backoff_max cfg),
          discovery = TaskDiscovery_new rpc (anchor_contract_address cfg) keeper_address pl gm
            (task_query_timeout cfg),
          health_server = HealthServer_new (health_port cfg)\<rparr>)"

lemmas constructors = ExecutionPipeline_new_def GraceMonitor_new_def LedgerPoller_new_def TaskDiscovery_new_def
  HealthServer_new_def

definition initial_engine :: "LogEvent list \<Rightarrow> 'n \<Rightarrow> 'n Engine" where
  "initial_engine l n =
     \<lparr>in_flight = InFlightSet_new, last_confirmed_ts = 0, last_known_ledger = 0, task_cache = Map.empty,
      broadcasts = [], log = l, deadline = None, net = n\<rparr>"

definition configuration_loaded :: "EngineConfig \<Rightarrow> LogEvent" where
  "configuration_loaded cfg =
     ConfigurationLoaded (rpc_endpoint_url cfg) (anchor_contract_address cfg) (health_port cfg)"

definition engine_main :: "Process \<Rightarrow> Keys \<Rightarrow> 'n \<Rightarrow> (nat \<times> LogEvent list) + (Components \<times> 'n Engine)" where
  "engine_main e k n = (case from_env e [] of
       (Ok cfg, l) \<Rightarrow>
         (let l1 = l @ [configuration_loaded cfg] in
          case derive_keypair k (keeper_keypair cfg) of
            Inl err \<Rightarrow> Inl (1, l1 @ [InvalidSecretSeed err])
          | Inr (keeper_address, signing_key_bytes) \<Rightarrow>
              Inr (wire cfg keeper_address signing_key_bytes,
                initial_engine (l1 @ [KeeperIdentityResolved keeper_address]) n))
     | (Err err, l) \<Rightarrow> Inl (1, l @ [ConfigurationRejected (display_error err)])
     | (Panic msg, l) \<Rightarrow> Inl (101, l))"

section \<open>Properties\<close>

text \<open>What the components of a started engine have in common.\<close>

definition wired :: "Components \<Rightarrow> bool" where
  "wired c \<longleftrightarrow> td_pipeline (discovery c) = pipeline c \<and> td_grace_monitor (discovery c) = grace_monitor c \<and>
     gm_pipeline (grace_monitor c) = pipeline c \<and>
     gm_keeper_address (grace_monitor c) = td_keeper_address (discovery c) \<and>
     pl_keeper_address (pipeline c) = td_keeper_address (discovery c) \<and>
     pl_anchor_contract_address (pipeline c) = td_anchor_contract_address (discovery c) \<and>
     lp_rpc (poller c) = pl_rpc (pipeline c) \<and> td_rpc (discovery c) = pl_rpc (pipeline c) \<and>
     1 \<le> unat (pl_retry_backoff_initial (pipeline c)) \<and>
     unat (pl_retry_backoff_initial (pipeline c)) \<le> unat (pl_retry_backoff_max (pipeline c)) \<and>
     unat (pl_retry_backoff_max (pipeline c)) \<le> 60 \<and>
     unat (lp_retry_backoff_initial (poller c)) \<le> unat (lp_retry_backoff_max (poller c)) \<and>
     unat (lp_retry_backoff_max (poller c)) \<le> 60"

lemma wired_dispatchable: "wired c \<Longrightarrow> dispatchable (discovery c)"
  by (auto simp: wired_def dispatchable_def)

lemma wire_wired:
  assumes "from_env e l = (Ok cfg, l')"
  shows "wired (wire cfg keeper key)"
proof -
  from assms have "ranges_ok (poll_interval cfg) (task_query_timeout cfg) (confirmation_timeout cfg)
      (retry_backoff_initial cfg) (retry_backoff_max cfg)"
    by (simp only: from_env_Ok_iff) blast
  then show ?thesis by (simp add: wire_def constructors wired_def ranges_ok_def Let_def)
qed

text \<open>The three ways start-up can go.\<close>

lemma engine_main_cases:
  obtains (rejected) field reason where "field \<in> CONFIG_FIELDS"
      and "from_env e [] = (Err (NonTransient (ConfigInvalid field reason)), [])"
      and "engine_main e k n =
        Inl (1, [ConfigurationRejected (display_error (NonTransient (ConfigInvalid field reason)))])"
  | (bad_secret) cfg l err where "from_env e [] = (Ok cfg, l)"
      and "private_key_from_string k (keeper_keypair cfg) = Inl err"
      and "engine_main e k n = Inl (1, l @ [configuration_loaded cfg, InvalidSecretSeed err])"
  | (started) cfg l key where "from_env e [] = (Ok cfg, l)"
      and "private_key_from_string k (keeper_keypair cfg) = Inr key"
      and "engine_main e k n = (let keeper = public_key_to_string k (verifying_key k key) in
        Inr (wire cfg keeper key,
          initial_engine (l @ [configuration_loaded cfg, KeeperIdentityResolved keeper]) n))"
proof -
  from from_env_names_field [of e] consider cfg l where "from_env e [] = (Ok cfg, l)"
    | field reason where "field \<in> CONFIG_FIELDS" "from_env e [] = (Err (NonTransient (ConfigInvalid field reason)), [])"
    unfolding names_field_def by metis
  then show ?thesis
  proof cases
    case (1 cfg l)
    then show ?thesis
      by (cases "private_key_from_string k (keeper_keypair cfg)")
        (auto simp: engine_main_def derive_keypair_def Let_def intro: bad_secret started)
  next
    case 2
    then show ?thesis by (intro rejected) (simp_all add: engine_main_def)
  qed
qed

lemma started_is_wired:
  assumes "engine_main e k n = Inr (c, s)"
  shows "wired c \<and> (\<exists>l. s = initial_engine l n)"
  by (rule engine_main_cases [of e k n]) (use assms wire_wired in \<open>auto simp: Let_def\<close>)

definition demo_keys :: "string \<Rightarrow> Keys" where
  "demo_keys a = \<lparr>private_key_from_string = (\<lambda>s. Inr [1, 2]), verifying_key = (\<lambda>k. k),
     public_key_to_string = (\<lambda>k. a)\<rparr>"

lemma demo_main:
  "\<exists>c s. engine_main demo_process (demo_keys a) (net (demo_engine [])) = Inr (c, s) \<and>
     td_keeper_address (discovery c) = a"
  by (simp add: engine_main_def demo_from_env derive_keypair_def demo_keys_def wire_def constructors Let_def)

text \<open>
  C26: start-up ends in one of three ways.  The engine starts with the health port of its
  configuration and consistent components: discovery, grace monitor and pipeline act for one keeper
  address on one contract through one RPC client, the shared state is empty and all backoff bounds
  are the validated ones.  Or it exits with code 1, and the last thing it writes names the
  configuration field at fault or the reason why the secret seed cannot be decoded.
\<close>
theorem started_engine_is_wired:
  "(\<exists>cfg l l' c. from_env e [] = (Ok cfg, l) \<and> engine_main e k n = Inr (c, initial_engine l' n) \<and>
      wired c \<and> hs_port (health_server c) = health_port cfg) \<or>
   (\<exists>field reason text. from_env e [] = (Err (NonTransient (ConfigInvalid field reason)), []) \<and>
      engine_main e k n = Inl (1, [ConfigurationRejected text]) \<and>
      sublist field text \<and> suffix reason text) \<or>
   (\<exists>cfg l l' err. from_env e [] = (Ok cfg, l) \<and>
      private_key_from_string k (keeper_keypair cfg) = Inl err \<and>
      engine_main e k n = Inl (1, l' @ [InvalidSecretSeed err]))"
proof (cases rule: engine_main_cases [of e k n])
  case (rejected field reason)
  let ?text = "display_error (NonTransient (ConfigInvalid field reason))"
  have "sublist field ?text" unfolding sublist_def
    by (intro exI [of _ "''non-transient: config validation failed: ''"]
        exI [of _ "'' '' @ EM_DASH @ '' '' @ reason"]) simp
  moreover have "suffix reason ?text" unfolding suffix_def
    by (intro exI [of _ "''non-transient: config validation failed: '' @ field @ '' '' @ EM_DASH @ '' ''"]) simp
  ultimately show ?thesis using rejected by blast
next
  case (bad_secret cfg l err)
  then have "engine_main e k n = Inl (1, (l @ [configuration_loaded cfg]) @ [InvalidSecretSeed err])" by simp
  with bad_secret show ?thesis by blast
next
  case (started cfg l key)
  with wire_wired [OF started(1)] show ?thesis
    by (auto simp: Let_def wire_def HealthServer_new_def)
qed

text \<open>
  C24: a started engine never gets stuck on the tasks a query finds.  Whatever the tasks, the roles
  and the network, processing them returns with the in-flight set as before and every task in the
  cache under its identifier.  The log grows by one line for the discovery and then, task by task and
  without mixing, by nothing or by the announcement of the task's role and one complete run of the
  attempt machine, with at most \<open>max_retries + 1\<close> submissions.  A \<open>dev\<close> build needs the end of every
  grace window to fit 32 bits.
\<close>
theorem found_tasks_processed:
  assumes "engine_main e k n = Inr (c, s0)" and "deadline s = None"
    and "build p = Release \<or> (\<forall>task \<in> set found. unat (rt_next_allowed_execution task) + 50 < 2 ^ 32)"
  shows "\<exists>l ls s'. process_found p (discovery c) found current s = (Ok (), s') \<and>
    in_flight s' = in_flight s \<and> log s' = log s @ l \<and>
    l = (if found \<noteq> [] then [DiscoveredTasks current (length found)] else []) @ concat ls \<and>
    list_all2 (handled (discovery c) current) found ls \<and>
    sends l \<le> length found * (unat (pl_max_retries (pipeline c)) + 1) \<and>
    (\<forall>task \<in> set found. \<exists>t \<in> set found. task_id_hex t = task_id_hex task \<and>
       task_cache s' (task_id_hex task) = Some t)"
proof -
  have wired: "wired c" using started_is_wired [OF assms(1)] by blast
  have fit: "windows_fit p found" using assms(3) by (simp add: windows_fit_def)
  have last: "last (filter (\<lambda>t. task_id_hex t = task_id_hex task) found) \<in>
      {t \<in> set found. task_id_hex t = task_id_hex task}" if "task \<in> set found" for task
    using that last_in_set [of "filter (\<lambda>t. task_id_hex t = task_id_hex task) found"]
    by (auto simp: filter_empty_conv)
  from process_found_run [OF assms(2) wired_dispatchable [OF wired] fit, of current] wired obtain l ls s' where
    run: "process_found p (discovery c) found current s = (Ok (), s')" "in_flight s' = in_flight s"
      "log s' = log s @ l" "sends l \<le> length found * (unat (pl_max_retries (pipeline c)) + 1)"
    and ls: "l = (if found \<noteq> [] then [DiscoveredTasks current (length found)] else []) @ concat ls"
      "list_all2 (handled (discovery c) current) found ls"
    and cache: "\<forall>task \<in> set found. task_cache s' (task_id_hex task) =
      Some (last (filter (\<lambda>t. task_id_hex t = task_id_hex task) found))"
    unfolding wired_def attempts_def by metis
  with last show ?thesis by (intro exI [of _ l] exI [of _ ls] exI [of _ s']) blast
qed

theorem found_tasks_processed_witness:
  "\<exists>c s0 s' l. engine_main demo_process (demo_keys ''GKEEPER'') (net (demo_engine [])) = Inr (c, s0) \<and>
     process_found (demo_platform Dev) (discovery c) [demo_task] 310 s0 = (Ok (), s') \<and>
     in_flight s' = in_flight s0 \<and> log s' = log s0 @ DiscoveredTasks 310 1 # l \<and>
     handled (discovery c) 310 demo_task l"
proof -
  obtain c s0 where main: "engine_main demo_process (demo_keys ''GKEEPER'') (net (demo_engine [])) = Inr (c, s0)"
    using demo_main by blast
  moreover have "deadline s0 = None"
    using started_is_wired [OF main] by (auto simp: initial_engine_def)
  ultimately show ?thesis
    using found_tasks_processed [OF main, of s0 "demo_platform Dev" "[demo_task]" 310]
    by (auto simp: demo_task_def list_all2_Cons1)
qed

end
