(* ===== verification/Engine_Traffic.thy ===== *)
theory Engine_Traffic
  imports Engine_Main
begin

text \<open>
  What the engine does to the outside world while it processes the tasks it found: the requests it
  posts, the sleeps in between and the futures it drops.  Everything it posts is either the signed
  execution of a found task in the keeper's own name or the question for a transaction's result.
\<close>

section \<open>Computations that move the state along a preorder\<close>

locale state_preorder =
  fixes R :: "'s \<Rightarrow> 's \<Rightarrow> bool"
  assumes R_refl: "R s s" and R_trans: "R s s' \<Longrightarrow> R s' s'' \<Longrightarrow> R s s''"
begin

definition moves :: "('s, 'e, 'a) comp \<Rightarrow> bool" where
  "moves m \<longleftrightarrow> (\<forall>s r s'. m s = (r, s') \<longrightarrow> R s s')"

lemma moves_prim:
  "moves (return_c a)" "moves (throw_c e)" "moves (panic_c msg)" "moves (gets_c f)"
  "moves skip_c" "moves (unwrap_c msg x)" "moves (ok_or_c e x)"
  by (cases x; simp add: moves_def comp_simps R_refl)+

lemma moves_modify: "(\<And>s. R s (u s)) \<Longrightarrow> moves (modify_c u)"
  by (simp add: moves_def comp_simps)

lemma moves_bind: "moves m \<Longrightarrow> (\<And>a. moves (f a)) \<Longrightarrow> moves (bind_c m f)"
  unfolding moves_def bind_c_def by (fastforce split: prod.splits outcome.splits intro: R_trans)

lemma moves_try: "moves m \<Longrightarrow> moves (try_c m)"
  unfolding moves_def try_c_def by (fastforce split: prod.splits outcome.splits)

end

section \<open>Network steps\<close>

text \<open>One thing the engine lets happen on the network; only bodies of \<open>B\<close> are posted.\<close>

inductive net_step :: "('n, 'v) Platform \<Rightarrow> RpcClient \<Rightarrow> 'v set \<Rightarrow> 'n \<Rightarrow> 'n \<Rightarrow> bool" for p rpc B where
  request: "body \<in> B \<Longrightarrow>
    net_step p rpc B n (snd (post p (endpoint rpc) (connect_timeout rpc) (request_timeout rpc) body n))"
| wait: "net_step p rpc B n (sleep_for p d n)"
| dropped: "net_step p rpc B n (interrupted p t n)"

inductive_cases net_stepE: "net_step p rpc B n n'"

definition net_moves ::
  "('n, 'v) Platform \<Rightarrow> RpcClient \<Rightarrow> 'v set \<Rightarrow> 'n Engine \<Rightarrow> 'n Engine \<Rightarrow> bool" where
  "net_moves p rpc B s s' \<longleftrightarrow> (net_step p rpc B)\<^sup>*\<^sup>* (net s) (net s')"

interpretation traffic: state_preorder "net_moves p rpc B" for p :: "('n, 'v) Platform" and rpc B
  by unfold_locales (auto simp: net_moves_def)

abbreviation on_wire ::
  "('n, 'v) Platform \<Rightarrow> RpcClient \<Rightarrow> 'v set \<Rightarrow> ('n Engine, 'e, 'a) comp \<Rightarrow> bool" where
  "on_wire p rpc B \<equiv> state_preorder.moves (net_moves p rpc B)"

lemmas traffic_simple [simp] = traffic.moves_prim

lemma traffic_log [simp]: "on_wire p rpc B (log_c ev)"
  by (simp add: log_c_def traffic.moves_modify net_moves_def)

lemma traffic_await:
  assumes "\<And>n. (net_step p rpc B)\<^sup>*\<^sup>* n (snd (f n))"
  shows "on_wire p rpc B (await_c p f)"
proof -
  have "(net_step p rpc B)\<^sup>*\<^sup>* n (interrupted p t n)" for n t
    by (intro r_into_rtranclp net_step.dropped)
  moreover have "(net_step p rpc B)\<^sup>*\<^sup>* n n'" if "f n = (a, n')" for n n' a
    using assms [of n] that by simp
  ultimately show ?thesis
    unfolding traffic.moves_def await_c_def net_moves_def
    by (auto split: prod.splits option.splits if_splits)
qed

lemma traffic_sleep [simp]: "on_wire p rpc B (sleep_c p d)"
  unfolding sleep_c_def by (rule traffic_await) (simp add: net_step.wait r_into_rtranclp)

lemma traffic_timeout: "on_wire p rpc B m \<Longrightarrow> on_wire p rpc B (timeout_c p d m)"
  unfolding traffic.moves_def timeout_c_def net_moves_def
  by (fastforce split: prod.splits outcome.splits if_splits)

lemma traffic_call:
  assumes "request_body p method params \<in> B"
  shows "on_wire p rpc B (rpc_call p rpc method params)"
proof -
  have "on_wire p rpc B (await_c p (post p (endpoint rpc) (connect_timeout rpc) (request_timeout rpc)
      (request_body p method params)))"
    by (intro traffic_await r_into_rtranclp net_step.request assms)
  then show ?thesis
    unfolding rpc_call_def Let_def request_body_def
    by (auto intro!: traffic.moves_bind split: http_reply.split sum.split option.split)
qed

section \<open>The requests of a dispatch\<close>

definition execution_bodies :: "('n, 'v) Platform \<Rightarrow> ExecutionPipeline \<Rightarrow> RemoteTask set \<Rightarrow> 'v set" where
  "execution_bodies p pl tasks =
     {send_body p (build_signed_transaction p pl task role) | task role. task \<in> tasks} \<union> range (ask_body p)"

lemma traffic_ask:
  "range (ask_body p) \<subseteq> B \<Longrightarrow> on_wire p rpc B (get_transaction p rpc h)"
  unfolding get_transaction_def Let_def
  by (intro traffic.moves_bind traffic_call) (auto simp: ask_body_def)

lemma traffic_send:
  "send_body p xdr \<in> B \<Longrightarrow> on_wire p rpc B (send_transaction p rpc xdr)"
  unfolding send_transaction_def
  by (intro traffic.moves_bind traffic_call) (auto simp: send_body_def)

lemma traffic_after_submission:
  assumes "range (ask_body p) \<subseteq> B"
  shows "on_wire p (pl_rpc pl) B (after_submission p pl task role h)"
  unfolding after_submission_def wait_for_confirmation_eq store_confirmed_def
  by (intro traffic.moves_bind traffic.moves_try traffic_timeout traffic_ask assms)
    (auto intro!: traffic.moves_bind traffic.moves_modify simp: net_moves_def
      split: sum.split option.split EngineError.split NonTransientError.split)

lemma traffic_retry:
  assumes "range (ask_body p) \<subseteq> B" and "send_body p (build_signed_transaction p pl task role) \<in> B"
  shows "on_wire p (pl_rpc pl) B (retry_from p pl task role left attempt backoff)"
proof (induction left arbitrary: attempt backoff)
  case (Suc left)
  then show ?case
    unfolding retry_from.simps
    by (intro traffic.moves_bind traffic.moves_try traffic_send assms)
      (auto intro!: traffic.moves_bind traffic_after_submission assms(1)
        split: sum.split EngineError.split)
qed simp

lemma traffic_dispatch:
  assumes "task \<in> tasks"
  shows "on_wire p (pl_rpc pl) (execution_bodies p pl tasks) (dispatch p pl task role)"
proof -
  have "send_body p (build_signed_transaction p pl task role) \<in> execution_bodies p pl tasks"
    and "range (ask_body p) \<subseteq> execution_bodies p pl tasks"
    using assms by (auto simp: execution_bodies_def)
  from traffic_retry [OF this(2,1)] show ?thesis
    unfolding dispatch_def Let_def execute_with_retry_def
    by (intro traffic.moves_bind) (auto intro!: traffic.moves_bind traffic.moves_modify simp: net_moves_def split_beta
        simp del: retry_from.simps)
qed

lemma traffic_classify:
  assumes "gm_pipeline (td_grace_monitor td) = td_pipeline td" and "task \<in> tasks"
  shows "on_wire p (pl_rpc (td_pipeline td)) (execution_bodies p (td_pipeline td) tasks)
    (classify_and_dispatch p td task current)"
  unfolding classify_and_dispatch_def evaluate_def Let_def log_missed_def assms(1)
  by (auto intro!: traffic.moves_bind traffic_dispatch [OF assms(2)])

lemma traffic_classify_all:
  assumes "gm_pipeline (td_grace_monitor td) = td_pipeline td" and "set found \<subseteq> tasks"
  shows "on_wire p (pl_rpc (td_pipeline td)) (execution_bodies p (td_pipeline td) tasks)
    (classify_all p td found current)"
  using assms(2) by (induction found) (auto intro!: traffic.moves_bind traffic_classify [OF assms(1)])

lemma traffic_process_found:
  assumes "gm_pipeline (td_grace_monitor td) = td_pipeline td"
  shows "on_wire p (pl_rpc (td_pipeline td)) (execution_bodies p (td_pipeline td) (set found))
    (process_found p td found current)"
  unfolding process_found_def update_cache_def
  by (auto intro!: traffic.moves_bind traffic.moves_modify simp: net_moves_def traffic_classify_all [OF assms])

end
