(* ===== verification/Anchor_Rate.thy ===== *)
theory Anchor_Rate
  imports Anchor_Profiles
begin

text \<open>
  How often a task runs.  The executions of a task are read off the published events; along every
  history without an integer overflow their ledgers form a paced run: each is at or after the time the one before it allows, and
  the stored schedule is where the last one left it.
\<close>

section \<open>Executions in the event log\<close>

definition run_of :: "TaskId \<Rightarrow> event \<Rightarrow> u32 option" where
  "run_of tid ev =
     (if topics ev = [''task_exec''] then
        (case data ev of ScTaskId i # _ # ScU32 l # _ \<Rightarrow> if i = tid then Some l else None | _ \<Rightarrow> None)
      else if topics ev = [''task_sec''] then
        (case data ev of ScTaskId i # _ # _ # ScU32 l # _ \<Rightarrow> if i = tid then Some l else None | _ \<Rightarrow> None)
      else None)"

definition run_ledgers :: "TaskId \<Rightarrow> event list \<Rightarrow> nat list" where
  "run_ledgers tid evs = map unat (List.map_filter (run_of tid) evs)"

lemma run_ledgers_append [simp]:
  "run_ledgers tid (evs @ evs') = run_ledgers tid evs @ run_ledgers tid evs'"
  by (simp add: run_ledgers_def List.map_filter_def)

lemma run_ledgers_Cons [simp]:
  "run_ledgers tid [] = []"
  "run_ledgers tid (ev # evs) =
     (case run_of tid ev of None \<Rightarrow> run_ledgers tid evs | Some l \<Rightarrow> unat l # run_ledgers tid evs)"
  by (simp_all add: run_ledgers_def List.map_filter_def split: option.splits)

lemma run_of_events [simp]:
  "run_of tid \<lparr>topics = [''kpr_reg''], data = d\<rparr> = None"
  "run_of tid \<lparr>topics = [''slashed''], data = d\<rparr> = None"
  "run_of tid (missed_event i n) = None" "run_of tid (task_prov_event t) = None"
  "run_of tid (task_exec_event t a l) = (if task_id t = tid then Some l else None)"
  "run_of tid (task_sec_event i t a l slash secondary) = (if i = tid then Some l else None)"
  by (simp_all add: run_of_def task_exec_event_def task_sec_event_def missed_event_def
      task_prov_event_def)

section \<open>Paced runs\<close>

text \<open>
  Executions at the ledgers \<open>ls\<close> of a task with the given interval, allowed from \<open>n\<close> on, leave it
  allowed from \<open>n'\<close> on.
\<close>

fun paced :: "nat \<Rightarrow> nat \<Rightarrow> nat list \<Rightarrow> nat \<Rightarrow> bool" where
  "paced interval n [] n' \<longleftrightarrow> n' = n"
| "paced interval n (l # ls) n' \<longleftrightarrow> n \<le> l \<and> paced interval (l + interval) ls n'"

lemma paced_append:
  "paced interval n (ls @ ls') n'' \<longleftrightarrow> (\<exists>n'. paced interval n ls n' \<and> paced interval n' ls' n'')"
  by (induction ls arbitrary: n) auto

lemma paced_rate:
  "paced interval n ls n' \<Longrightarrow> n + length ls * interval \<le> n'"
  by (induction ls arbitrary: n) fastforce+

lemma paced_within:
  assumes "paced interval n ls n'" and "set ls \<subseteq> {a..b}" and "a \<le> b"
  shows "(length ls - 1) * interval \<le> b - a"
proof (cases ls)
  case (Cons l ls')
  with assms(1) have tail: "paced interval (l + interval) ls' n'" by simp
  from tail assms(2,3) Cons have "l + length ls' * interval \<le> b"
  proof (induction ls' arbitrary: l ls)
    case (Cons l' ls'')
    from Cons.prems have "l' + length ls'' * interval \<le> b"
      by (intro Cons.IH [of l' "l' # ls''"]) auto
    with Cons.prems(1) show ?case by simp
  qed simp
  with Cons assms(2) show ?thesis by (simp, linarith)
qed simp

section \<open>Histories are paced\<close>

definition ran :: "'w Env \<Rightarrow> TaskId \<Rightarrow> ExecutionTask \<Rightarrow> 'w Env \<Rightarrow> bool" where
  "ran e tid t e' \<longleftrightarrow> unat (sequence e) \<le> unat (sequence e') \<and>
     (\<exists>evs n. events e' = events e @ evs \<and> task_at e' tid = Some (t\<lparr>next_allowed_execution := n\<rparr>) \<and>
        paced (unat (execution_interval_ledgers t)) (unat (next_allowed_execution t))
          (run_ledgers tid evs) (unat n) \<and>
        set (run_ledgers tid evs) \<subseteq> {unat (sequence e)..unat (sequence e')})"

lemma ran_idle:
  assumes "task_at e tid = Some t" and "task_at e' tid = Some t" and "events e' = events e @ evs"
    and "run_ledgers tid evs = []" and "unat (sequence e) \<le> unat (sequence e')"
  shows "ran e tid t e'"
  using assms by (auto simp: ran_def intro!: exI [of _ evs] exI [of _ "next_allowed_execution t"])

lemma ran_trans:
  assumes "ran e tid t e'"
    and "\<And>n. task_at e' tid = Some (t\<lparr>next_allowed_execution := n\<rparr>) \<Longrightarrow>
      ran e' tid (t\<lparr>next_allowed_execution := n\<rparr>) e''"
  shows "ran e tid t e''"
proof -
  from assms(1) obtain evs n where 1: "events e' = events e @ evs"
    "task_at e' tid = Some (t\<lparr>next_allowed_execution := n\<rparr>)" "unat (sequence e) \<le> unat (sequence e')"
    "paced (unat (execution_interval_ledgers t)) (unat (next_allowed_execution t)) (run_ledgers tid evs) (unat n)"
    "set (run_ledgers tid evs) \<subseteq> {unat (sequence e)..unat (sequence e')}"
    by (auto simp: ran_def)
  from assms(2) [OF 1(2)] obtain evs' n' where 2: "events e'' = events e' @ evs'"
    "task_at e'' tid = Some (t\<lparr>next_allowed_execution := n'\<rparr>)" "unat (sequence e') \<le> unat (sequence e'')"
    "paced (unat (execution_interval_ledgers t)) (unat n) (run_ledgers tid evs') (unat n')"
    "set (run_ledgers tid evs') \<subseteq> {unat (sequence e')..unat (sequence e'')}"
    by (auto simp: ran_def)
  have "paced (unat (execution_interval_ledgers t)) (unat (next_allowed_execution t))
      (run_ledgers tid (evs @ evs')) (unat n')"
    using 1(4) 2(4) by (auto simp: paced_append)
  moreover have "set (run_ledgers tid (evs @ evs')) \<subseteq> {unat (sequence e)..unat (sequence e'')}"
    using 1(3,5) 2(3,5) by fastforce
  ultimately show ?thesis
    unfolding ran_def using 1(1,3) 2(1-3)
    by (intro conjI exI [of _ "evs @ evs'"] exI [of _ n']; simp)
qed

lemma ran_execute:
  assumes ok: "storage_ok e" and t: "task_at e tid = Some t" and dev: "profile h = Dev"
    and ret: "execute_drip_split h i caller e = (Ok u, e')"
  shows "ran e tid t e'"
proof -
  from execute_drip_split_views [OF ok ret]
  obtain s n m where s: "task_at e i = Some s"
    and n: "uadd (profile h) (sequence e) (execution_interval_ledgers s) = Some n"
    and eff: "if region_of (next_allowed_execution s) (sequence e) = GracePeriod
         then grace_effect h i s caller e m e' else plain_effect i s caller e m e'"
    and tt: "task_at e' = (task_at e)(i \<mapsto> s\<lparr>next_allowed_execution := n\<rparr>)"
    and seq: "sequence e' = sequence e" by metis
  have id: "task_id s = i" using task_at_task_id [OF ok s] .
  from n dev have n': "unat n = unat (sequence e) + unat (execution_interval_ledgers s)"
    by (auto simp: uadd_Dev_Some uadd_Some_unat)
  from execute_drip_split_Ok [OF ok ret] s
  have "admitted (region_of (next_allowed_execution s) (sequence e))
         (caller = designated_keeper s) (keeper_at e caller \<noteq> None)" by auto
  then have due: "unat (next_allowed_execution s) \<le> unat (sequence e)"
    by (auto simp: region_of_def split: if_splits)
  obtain evs where evs: "events e' = events e @ evs"
    and runs: "\<And>j. run_ledgers j evs = (if j = i then [unat (sequence e)] else [])"
    using eff id by (fastforce simp: grace_effect_def plain_effect_def split: if_splits)
  show ?thesis
  proof (cases "i = tid")
    case True
    with s t have [simp]: "s = t" by simp
    from True evs runs due n' tt seq show ?thesis
      by (auto simp: ran_def intro!: exI [of _ evs] exI [of _ n])
  next
    case False
    with t tt evs runs seq show ?thesis by (intro ran_idle [OF t]) auto
  qed
qed

lemma ran_return:
  assumes inv: "contract_inv e" and ids: "task_ids_ok h e" and dev: "profile h = Dev"
    and cf: "collision_free h" and t: "task_at e tid = Some t"
    and ret: "anchor_contract h c e = (Ok r, e')"
  shows "ran e tid t e'"
  using contract_inv_storage [OF inv] ret
proof (cases rule: returned_call_cases)
  case (provision target interval reward d admin k cn n s)
  have "task_at e (task_id s) = None"
    using fresh_task_id [OF cf dev ids] provision(10) by (simp add: provisioned_def)
  with t provision(12) show ?thesis
    by (intro ran_idle [OF t, where evs = "[task_prov_event s]"]) (auto simp: task_table.get_put)
next
  case (execute i caller)
  with ran_execute [OF contract_inv_storage [OF inv] t dev] show ?thesis by blast
next
  case (register a st)
  with t show ?thesis
    by (intro ran_idle [OF t, where
        evs = "[\<lparr>topics = [''kpr_reg''], data = [ScAddress a, ScI128 st]\<rparr>]"]) auto
qed (use t in \<open>auto intro!: ran_idle [OF t, where evs = "[]"]\<close>)

lemma ran_step:
  assumes r: "reachable h e" and dev: "profile h = Dev" and cf: "collision_free h"
    and t: "task_at e tid = Some t" and step: "anchor_step h e e'"
  shows "ran e tid t e'"
  using step
proof (cases rule: anchor_step.cases)
  case (invoke c A)
  let ?e = "e\<lparr>auths := A\<rparr>"
  have "contract_inv ?e" and "task_ids_ok h ?e" and "task_at ?e tid = Some t"
    using reachable_contract_inv [OF r] task_ids.everywhere [OF r] t by (simp_all add: task_ids.blind)
  note ret = ran_return [OF this(1,2) dev cf this(3)]
  show ?thesis
  proof (cases rule: host_call_cases [of "anchor_contract h c" ?e])
    case (returned a e'')
    with ret have "ran ?e tid t e''" by blast
    with returned invoke show ?thesis by (simp add: ran_def)
  next
    case reverted
    with invoke t show ?thesis by (intro ran_idle [OF t, where evs = "[]"]) simp_all
  qed
qed (use t in \<open>auto intro!: ran_idle [OF t, where evs = "[]"] simp: word_less_nat_alt\<close>)

lemma ran_along:
  assumes "(anchor_step h)\<^sup>*\<^sup>* e e'" and "reachable h e" and "profile h = Dev" and "collision_free h"
    and "task_at e tid = Some t"
  shows "reachable h e' \<and> ran e tid t e'"
  using assms(1)
proof (induction rule: rtranclp_induct)
  case base
  with assms(2,5) show ?case by (auto intro!: ran_idle [where evs = "[]"])
next
  case (step e' e'')
  then have "reachable h e'" and "ran e tid t e'" by auto
  with step(2) ran_step [OF \<open>reachable h e'\<close> assms(3,4) _ step(2)] show ?case
    by (auto intro: reachable.step ran_trans)
qed

text \<open>The same along the exact histories of either build.\<close>

lemma exact_run_paced:
  assumes "collision_free h" and "exact_reachable h e" and "task_at e tid = Some t"
    and "(exact_step h)\<^sup>*\<^sup>* e e'"
  shows "\<exists>evs n. events e' = events e @ evs \<and> task_at e' tid = Some (t\<lparr>next_allowed_execution := n\<rparr>) \<and>
    paced (unat (execution_interval_ledgers t)) (unat (next_allowed_execution t))
      (run_ledgers tid evs) (unat n) \<and>
    (length (run_ledgers tid evs) - 1) * unat (execution_interval_ledgers t)
      \<le> unat (sequence e') - unat (sequence e)"
proof -
  have run: "(anchor_step (dev h))\<^sup>*\<^sup>* e e'"
    using exact_run_dev [OF assms(4)] reachable_contract_inv [OF exact_reachable_reachable [OF assms(2)]] by blast
  have "collision_free (dev h)" using assms(1) by (simp add: collision_free_def)
  from ran_along [OF run exact_reachable_dev [OF assms(2)] _ this assms(3)] obtain evs n where
    *: "events e' = events e @ evs"
    "task_at e' tid = Some (t\<lparr>next_allowed_execution := n\<rparr>)"
    "paced (unat (execution_interval_ledgers t)) (unat (next_allowed_execution t)) (run_ledgers tid evs) (unat n)"
    "set (run_ledgers tid evs) \<subseteq> {unat (sequence e)..unat (sequence e')}"
    "unat (sequence e) \<le> unat (sequence e')"
    by (auto simp: ran_def)
  from paced_within [OF *(3,4,5)] * show ?thesis by blast
qed

section \<open>Property\<close>

text \<open>
  C7: a task is never executed more often than its interval allows, over histories of any length and
  whoever calls.  Between two states of one deployment the ledgers at which the task is announced as
  executed form a paced run: the first is not before the time stored at the start, each further one
  is at least an interval after the one before it, and the stored schedule is the last of them plus
  the interval.  So \<open>k\<close> executions take at least \<open>(k - 1) * interval\<close> ledgers.  The conditions: the
  hash is collision free on the 8-byte inputs the contract builds, and the history is exact, that is
  any history of a \<open>dev\<close> build or a release history in which no call overflows an integer
  (\<open>overflow_at\<close>).  Past such an overflow a release schedule wraps around and the rate is lost.
\<close>
theorem execution_rate:
  assumes "collision_free h" and "exact_reachable h e" and "task_at e tid = Some t"
    and "(exact_step h)\<^sup>*\<^sup>* e e'"
  shows "\<exists>evs n. events e' = events e @ evs \<and> task_at e' tid = Some (t\<lparr>next_allowed_execution := n\<rparr>) \<and>
    paced (unat (execution_interval_ledgers t)) (unat (next_allowed_execution t))
      (run_ledgers tid evs) (unat n) \<and>
    (length (run_ledgers tid evs) - 1) * unat (execution_interval_ledgers t)
      \<le> unat (sequence e') - unat (sequence e)"
  using assms by (rule exact_run_paced)

text \<open>
  The witness runs the sandbox task on the release build at ledger 300, its first, and closes the
  ledger up to 499.
\<close>

theorem execution_rate_witness:
  "\<exists>e' evs. execute_drip_split (sandbox_host Release) sandbox_task ''ALICE'' (sandbox_at Release 300) = (Ok (), e') \<and>
     events (e'\<lparr>sequence := 499\<rparr>) = events (sandbox_at Release 300) @ evs \<and> length (run_ledgers sandbox_task evs) \<le> 1"
proof -
  let ?h = "sandbox_host Release" and ?e = "sandbox_at Release 300"
  obtain e' where run: "execute_drip_split ?h sandbox_task ''ALICE'' ?e = (Ok (), e')"
    using sandbox_designated_run by blast
  have seq: "sequence e' = 300"
    using execute_drip_split_views [OF _ run] by (metis sandbox_at_views(8,12))
  have "exact_call ?h (ExecuteDripSplit sandbox_task ''ALICE'') ?e"
    by (simp add: exact_call_def run_overflows_def)
  then have "exact_step ?h ?e e'" using run by (rule execution_is_exact_step)
  moreover have "exact_step ?h e' (e'\<lparr>sequence := 499\<rparr>)"
    by (rule exact_step.ledger_close) (simp add: seq)
  ultimately have "(exact_step ?h)\<^sup>*\<^sup>* ?e (e'\<lparr>sequence := 499\<rparr>)" by simp
  from execution_rate [OF sandbox_collision_free sandbox_at_exact _ this, of sandbox_task DRIPS]
  obtain evs where "events (e'\<lparr>sequence := 499\<rparr>) = events ?e @ evs"
    "(length (run_ledgers sandbox_task evs) - 1) * 200 \<le> 199" by auto
  moreover from this(2) have "length (run_ledgers sandbox_task evs) \<le> 1" by linarith
  ultimately show ?thesis using run by blast
qed

end
