(* ===== verification/Engine_Chain.thy ===== *)
theory Engine_Chain
  imports Engine_Traffic Anchor_Rate
begin

text \<open>
  The engine in front of the contract it serves.  The network is opaque to the engine; here it hosts a
  deployed contract, which makes any steps of its own while a request is answered, a sleep passes or a
  future is dropped: the submitted transaction may be executed at once, late, twice or never, and
  others may call the contract as well.
\<close>

text \<open>
  From the network state \<open>n0\<close> on, whatever the network does is an exact history of the contract: any
  history of a \<open>dev\<close> build, or calls of a release build that overflow no integer.
\<close>

definition hosts ::
  "'w Host \<Rightarrow> ('n, 'v) Platform \<Rightarrow> RpcClient \<Rightarrow> 'v set \<Rightarrow> ('n \<Rightarrow> 'w Env) \<Rightarrow> 'n \<Rightarrow> bool" where
  "hosts h p rpc B chain n0 \<longleftrightarrow>
     (\<forall>n n'. (net_step p rpc B)\<^sup>*\<^sup>* n0 n \<longrightarrow> net_step p rpc B n n' \<longrightarrow>
        (exact_step h)\<^sup>*\<^sup>* (chain n) (chain n'))"

lemma hosts_along:
  assumes "hosts h p rpc B chain n" and "(net_step p rpc B)\<^sup>*\<^sup>* n n'"
  shows "(exact_step h)\<^sup>*\<^sup>* (chain n) (chain n')"
  using assms(2)
proof (induction rule: rtranclp_induct)
  case (step n' n'')
  with assms(1) show ?case unfolding hosts_def by (blast intro: rtranclp_trans)
qed simp

section \<open>A network that loses every answer\<close>

text \<open>
  Every request reaches the sandbox contract as a call of \<open>execute_drip_split\<close> signed by Alice, and
  every answer times out.
\<close>

record lossy_net =
  chain_state :: "token_ledger Env"
  chain_time :: nat

definition alice_executes :: "token_ledger Env \<Rightarrow> token_ledger Env" where
  "alice_executes e = snd (host_call
     (anchor_contract (sandbox_host Release) (ExecuteDripSplit sandbox_task ''ALICE''))
     (e\<lparr>auths := (\<lambda>a. a = ''ALICE'')\<rparr>))"

definition lossy_platform :: "(lossy_net, demo_json) Platform" where
  "lossy_platform =
     \<lparr>build = Dev,
      post = (\<lambda>url c t body n. (SendError \<lparr>is_timeout = True, is_connect = False, error_text = ''''\<rparr>,
         n\<lparr>chain_state := alice_executes (chain_state n), chain_time := chain_time n + unat t\<rparr>)),
      json_object = JObj, json_string = JText, json_number = (\<lambda>n. JNum (of_nat n)), json_get = demo_get,
      json_index = (\<lambda>v k. case demo_get v k of None \<Rightarrow> JNull | Some x \<Rightarrow> x),
      json_as_str = demo_str, json_as_u64 = demo_u64, json_text = (\<lambda>v. ''json''),
      sleep_for = (\<lambda>d n. n\<lparr>chain_time := chain_time n + unat d\<rparr>), instant = chain_time,
      interrupted = (\<lambda>t n. n\<lparr>chain_time := t\<rparr>), unix_time = (\<lambda>n. Some (of_nat (chain_time n))),
      hex_decode = (\<lambda>s. Some (map (\<lambda>c. of_nat (byte_of c)) s)),
      hex_encode = map (\<lambda>b. char_of (unat b)), sign = (\<lambda>k m. k)\<rparr>"

definition lossy_start :: lossy_net where
  "lossy_start = \<lparr>chain_state = sandbox_at Release 300, chain_time = 0\<rparr>"

text \<open>
  What Alice's calls leave of the sandbox at ledger 300: the task is due and her record is new, or the
  task has run.  Neither overflows.
\<close>

definition served :: "token_ledger Env \<Rightarrow> bool" where
  "served e \<longleftrightarrow> exact_reachable (sandbox_host Release) e \<and> sequence e = 300 \<and>
     (task_at e sandbox_task = Some DRIPS \<and> keeper_at e ''ALICE'' = Some ALICE \<or>
      task_at e sandbox_task = Some (DRIPS\<lparr>next_allowed_execution := 500\<rparr>))"

lemma alice_exact:
  assumes "served e"
  shows "exact_step (sandbox_host Release) e (alice_executes e)"
proof -
  let ?e = "e\<lparr>auths := \<lambda>a. a = ''ALICE''\<rparr>"
  have "region_of 500 300 = PreWindow" by (simp add: region_of_def)
  with assms have "\<not> overflow_at (sandbox_host Release) (ExecuteDripSplit sandbox_task ''ALICE'') ?e"
    unfolding served_def by (elim conjE disjE) (simp_all add: run_overflows_def)
  then show ?thesis
    unfolding alice_executes_def by (intro exact_step.invoke) (simp add: exact_call_def del: overflow_at.simps)
qed

lemma alice_served:
  assumes "served e"
  shows "served (alice_executes e)"
proof -
  let ?e = "e\<lparr>auths := \<lambda>a. a = ''ALICE''\<rparr>"
  let ?m = "anchor_contract (sandbox_host Release) (ExecuteDripSplit sandbox_task ''ALICE'')"
  have r: "exact_reachable (sandbox_host Release) (alice_executes e)"
    using assms alice_exact [OF assms] by (auto simp: served_def intro: exact_reachable_run)
  have seq: "sequence ?e = 300" "profile (sandbox_host Release) = Release"
    using assms by (simp_all add: served_def)
  have ok: "storage_ok ?e"
    using assms reachable_storage [OF exact_reachable_reachable] by (auto simp: served_def)
  show ?thesis
  proof (cases rule: host_call_cases [of ?m ?e])
    case (returned a e')
    then have run: "execute_drip_split (sandbox_host Release) sandbox_task ''ALICE'' ?e = (Ok (), e')"
      by (auto simp: reply_with_Ok)
    from execute_drip_split_views [OF ok run] obtain t n where "task_at ?e sandbox_task = Some t"
      "uadd Release 300 (execution_interval_ledgers t) = Some n" "sequence e' = 300"
      "task_at e' = (task_at ?e)(sandbox_task \<mapsto> t\<lparr>next_allowed_execution := n\<rparr>)"
      using seq by metis
    with returned r assms show ?thesis by (auto simp: served_def alice_executes_def uadd_def)
  next
    case reverted
    with r assms show ?thesis by (simp add: served_def alice_executes_def)
  qed
qed

lemma lossy_step:
  assumes "net_step lossy_platform rpc B n n'"
  shows "chain_state n' \<in> {chain_state n, alice_executes (chain_state n)}"
  using assms by (rule net_stepE) (simp_all add: lossy_platform_def)

lemma lossy_served:
  "(net_step lossy_platform rpc B)\<^sup>*\<^sup>* lossy_start n \<Longrightarrow> served (chain_state n)"
proof (induction rule: rtranclp_induct)
  case base
  show ?case by (simp add: lossy_start_def served_def)
next
  case (step n n')
  with lossy_step [OF step(2)] alice_served show ?case by auto
qed

lemma lossy_hosts: "hosts (sandbox_host Release) lossy_platform rpc B chain_state lossy_start"
  unfolding hosts_def
proof (intro allI impI)
  fix n n'
  assume "(net_step lossy_platform rpc B)\<^sup>*\<^sup>* lossy_start n" and step: "net_step lossy_platform rpc B n n'"
  from lossy_served [OF this(1)] have "served (chain_state n)" .
  with lossy_step [OF step] alice_exact show "(exact_step (sandbox_host Release))\<^sup>*\<^sup>* (chain_state n) (chain_state n')"
    by (elim insertE emptyE) (simp_all add: r_into_rtranclp)
qed

text \<open>The engine gives Alice's task all its attempts.\<close>

definition lossy_task :: RemoteTask where
  "lossy_task = demo_task\<lparr>rt_designated_keeper := ''ALICE''\<rparr>"

lemma lossy_transient: "always_transient lossy_platform pl xdr"
  by (auto simp: always_transient_def send_transaction_def rpc_call_def Let_def comp_simps
      lossy_platform_def classify_send_error_def bind_c_def)

lemma lossy_sends:
  assumes wired: "wired c" and me: "td_keeper_address (discovery c) = ''ALICE''"
    and s: "deadline s = None" "in_flight s = {||}"
  shows "\<exists>l s'. process_found lossy_platform (discovery c) [lossy_task] 300 s = (Ok (), s') \<and>
    log s' = log s @ l \<and> sends l = unat (pl_max_retries (pipeline c)) + 1"
proof -
  let ?i = "parse_task_id lossy_platform (task_id_hex lossy_task)"
  let ?ev = "DiscoveredTasks 300 1" and ?pl = "pipeline c"
  let ?s1 = "s\<lparr>log := log s @ [?ev], task_cache := (task_cache s)(task_id_hex lossy_task \<mapsto> lossy_task)\<rparr>"
  let ?s2 = "?s1\<lparr>in_flight := {|?i|}\<rparr>"
  have cap: "unat (pl_retry_backoff_max ?pl) \<le> 2 ^ 62"
    "unat (pl_retry_backoff_initial ?pl) \<le> unat (pl_retry_backoff_max ?pl)"
    using wired by (simp_all add: wired_def)
  have "deadline ?s2 = None" using s(1) by simp
  from retry_exhausts [OF cap(1) lossy_transient this cap(2) add_0, of lossy_task Designated]
  obtain l e s3 where
    "retry_from lossy_platform ?pl lossy_task Designated (Suc (unat (pl_max_retries ?pl))) 0
       (pl_retry_backoff_initial ?pl) ?s2 = (Ok (), s3)"
    and l: "attempted ?s2 (l @ [MaxRetriesReached (task_id_hex lossy_task) e (unat (pl_max_retries ?pl))]) s3"
    "sends l = Suc (unat (pl_max_retries ?pl))" by blast
  then have run: "execute_with_retry lossy_platform ?pl lossy_task Designated ?s2 = (Ok (), s3)"
    by (simp only: execute_with_retry_def Suc_eq_plus1)
  have "dispatch lossy_platform ?pl lossy_task Designated ?s1 =
      (Ok (), s3\<lparr>in_flight := remove_task ?i (in_flight s3)\<rparr>)"
    using run s(2) by (simp add: dispatch_def Let_def comp_simps insert_task_def)
  moreover have "classify_and_dispatch lossy_platform (discovery c) lossy_task 300 ?s1 =
      dispatch lossy_platform ?pl lossy_task Designated ?s1"
    using wired me s(2) classify_eq [of lossy_platform lossy_task ?s1 "discovery c" 300]
    by (simp add: wired_def contains_task_def lossy_task_def demo_task_def Let_def)
  ultimately have "process_found lossy_platform (discovery c) [lossy_task] 300 s =
      (Ok (), s3\<lparr>in_flight := remove_task ?i (in_flight s3)\<rparr>)"
    by (simp add: process_found_def update_cache_def comp_simps)
  moreover from l(1) have "log s3 = log ?s2 @ l @ [MaxRetriesReached (task_id_hex lossy_task) e (unat (pl_max_retries ?pl))]"
    unfolding attempted_def by (elim conjE)
  then have "log (s3\<lparr>in_flight := remove_task ?i (in_flight s3)\<rparr>) =
      log s @ ?ev # l @ [MaxRetriesReached (task_id_hex lossy_task) e (unat (pl_max_retries ?pl))]"
    by simp
  moreover have "sends (?ev # l @ [MaxRetriesReached (task_id_hex lossy_task) e (unat (pl_max_retries ?pl))]) =
      unat (pl_max_retries ?pl) + 1"
    using l(2) by simp
  ultimately show ?thesis by blast
qed

section \<open>Property\<close>

text \<open>
  C17: retries are safe.  On a network that hosts the contract, whatever it answers and whatever it
  loses, a started engine that processes found tasks returns; on the way it posts nothing but the
  signed executions of these tasks in its keeper's name and questions for their results, at most
  \<open>max_retries + 1\<close> submissions per task; and however many of them arrive, in whatever order, \<open>k\<close>
  executions of a task mean that at least \<open>(k - 1) * interval\<close> ledgers have closed meanwhile: within
  one interval a task is executed and paid at most once.  The conditions on the hosted contract: its
  hash is collision free on the 8-byte inputs it builds, and its history so far and on this network is
  exact, that is any history of a \<open>dev\<close> build or a release history in which no call overflows an
  integer (\<open>overflow_at\<close>).  The engine either is a release build or gets no window past the last ledger
  number.
\<close>
theorem retries_are_safe:
  assumes "engine_main env keys n0 = Inr (c, s0)" and "deadline s = None"
    and "build p = Release \<or> (\<forall>task \<in> set found. unat (rt_next_allowed_execution task) + 50 < 2 ^ 32)"
    and "hosts h p (pl_rpc (pipeline c)) (execution_bodies p (pipeline c) (set found)) chain (net s)"
    and "collision_free h" and "exact_reachable h (chain (net s))"
    and "task_at (chain (net s)) tid = Some t"
  shows "\<exists>l evs s'. process_found p (discovery c) found current s = (Ok (), s') \<and>
    log s' = log s @ l \<and> sends l \<le> length found * (unat (pl_max_retries (pipeline c)) + 1) \<and>
    (net_step p (pl_rpc (pipeline c)) (execution_bodies p (pipeline c) (set found)))\<^sup>*\<^sup>* (net s) (net s') \<and>
    events (chain (net s')) = events (chain (net s)) @ evs \<and>
    (length (run_ledgers tid evs) - 1) * unat (execution_interval_ledgers t)
      \<le> unat (sequence (chain (net s'))) - unat (sequence (chain (net s)))"
proof -
  have wired: "wired c" using started_is_wired [OF assms(1)] by blast
  then have pl: "td_pipeline (discovery c) = pipeline c"
    "gm_pipeline (td_grace_monitor (discovery c)) = td_pipeline (discovery c)"
    by (simp_all add: wired_def)
  have "windows_fit p found" using assms(3) by (simp add: windows_fit_def)
  from process_found_run [OF assms(2) wired_dispatchable [OF wired] this, of current] obtain l s' where
    run: "process_found p (discovery c) found current s = (Ok (), s')" and l: "log s' = log s @ l"
    and sends: "sends l \<le> length found * attempts (discovery c)" by blast
  from traffic_process_found [OF pl(2), of p found current] run
  have net: "(net_step p (pl_rpc (pipeline c)) (execution_bodies p (pipeline c) (set found)))\<^sup>*\<^sup>* (net s) (net s')"
    unfolding pl(1) traffic.moves_def net_moves_def by blast
  from exact_run_paced [OF assms(5,6,7) hosts_along [OF assms(4) net]] obtain evs where
    "events (chain (net s')) = events (chain (net s)) @ evs"
    "(length (run_ledgers tid evs) - 1) * unat (execution_interval_ledgers t)
      \<le> unat (sequence (chain (net s'))) - unat (sequence (chain (net s)))" by blast
  with run l sends net show ?thesis unfolding attempts_def pl(1) by blast
qed

text \<open>
  Applied to the network that loses every answer, before a release build of the contract: the engine submits eight times, each submission
  reaches the contract, and the task is executed at most once.
\<close>

theorem retries_are_safe_witness:
  "\<exists>c s0 l s' evs. engine_main demo_process (demo_keys ''ALICE'') lossy_start = Inr (c, s0) \<and>
     process_found lossy_platform (discovery c) [lossy_task] 300 s0 = (Ok (), s') \<and>
     log s' = log s0 @ l \<and> sends l = 8 \<and>
     events (chain_state (net s')) = events (sandbox_at Release 300) @ evs \<and>
     length (run_ledgers sandbox_task evs) \<le> 1"
proof -
  obtain c s0 where main: "engine_main demo_process (demo_keys ''ALICE'') lossy_start = Inr (c, s0)"
    and c: "td_keeper_address (discovery c) = ''ALICE''" "pl_max_retries (pipeline c) = 7"
    by (simp add: engine_main_def demo_from_env derive_keypair_def demo_keys_def wire_def constructors
        demo_config_def Let_def)
  have wired: "wired c" and s0: "deadline s0 = None" "net s0 = lossy_start" "in_flight s0 = {||}"
    using started_is_wired [OF main] by (auto simp: initial_engine_def InFlightSet_new_def)
  obtain s' evs where run: "process_found lossy_platform (discovery c) [lossy_task] 300 s0 = (Ok (), s')"
    and net: "(net_step lossy_platform (pl_rpc (pipeline c))
      (execution_bodies lossy_platform (pipeline c) {lossy_task}))\<^sup>*\<^sup>* lossy_start (net s')"
    and evs: "events (chain_state (net s')) = events (sandbox_at Release 300) @ evs"
    and few: "(length (run_ledgers sandbox_task evs) - 1) * 200 \<le> unat (sequence (chain_state (net s'))) - 300"
    using retries_are_safe [OF main s0(1) _ lossy_hosts [folded s0(2)] sandbox_collision_free,
        of "[lossy_task]" sandbox_task DRIPS 300]
    by (auto simp: s0(2) lossy_start_def lossy_task_def demo_task_def)
  from few lossy_served [OF net] have "length (run_ledgers sandbox_task evs) \<le> 1" by (simp add: served_def)
  moreover from lossy_sends [OF wired c(1) s0(1,3)] run c(2)
  obtain l where "log s' = log s0 @ l" "sends l = 8" by auto
  ultimately show ?thesis using main run evs by blast
qed

end
