(* ===== verification/Engine_System.thy ===== *)
theory Engine_System
  imports Engine_Main
begin

text \<open>
  The running daemon, \<open>the-engine/src/main.rs\<close> from the first \<open>tokio::spawn\<close> on: the three spawned
  tasks share the engine state and the broadcast channel, and interleave with each other, with the
  rest of \<open>main\<close> and with the outside world.

  One step is one iteration of one task (a poll, a received event, a served request), one statement
  of \<open>main\<close> or a change of the network.  Inside an iteration no shared cell has a second writer (the
  ledger counter belongs to the poller, the timestamp to the pipeline, the in-flight set is behind a
  mutex), so finer interleavings only reorder log lines and requests.  A panic ends its own task
  only, as \<open>tokio::spawn\<close> documents.

  The channel is \<open>tokio::sync::broadcast\<close>, a parameter: \<open>broadcast_laws\<close> states what its
  documentation promises of a receiver, over the backlog a function \<open>view\<close> reads off the channel.
\<close>

record 'c Broadcast =
  channel :: "nat \<Rightarrow> 'c"
  subscribe :: "'c \<Rightarrow> 'c"
  send :: "LedgerEvent \<Rightarrow> 'c \<Rightarrow> 'c"
  recv :: "'c \<Rightarrow> (RecvResult \<times> 'c) option"

text \<open>
  What the receiver of discovery is about to see: nothing before it exists, afterwards the values
  queued for it and the number of values it has missed and not yet been told about.
\<close>

type_synonym backlog = "(LedgerEvent list \<times> nat) option"

fun pending_in :: "backlog \<Rightarrow> LedgerEvent list" where
  "pending_in None = []"
| "pending_in (Some (evs, lag)) = evs"

fun unseen_in :: "backlog \<Rightarrow> nat" where
  "unseen_in None = 0"
| "unseen_in (Some (evs, lag)) = length evs + lag"

text \<open>
  The channel starts without receiver (the sources drop the one they get) and a new receiver starts
  empty.  A sent value is queued behind the pending ones, of which the oldest may be overwritten and
  then count as missed.  \<open>recv\<close> waits (\<open>None\<close>) exactly when there is nothing to see, yields the oldest
  pending value, or first reports missed values and their number.  It reports the channel closed only
  when every sender is gone, and \<open>main\<close> keeps one.
\<close>

definition broadcast_laws :: "'c Broadcast \<Rightarrow> ('c \<Rightarrow> backlog) \<Rightarrow> bool" where
  "broadcast_laws ch view \<longleftrightarrow>
     (\<forall>n. view (channel ch n) = None) \<and> (\<forall>q. view (subscribe ch q) = Some ([], 0)) \<and>
     (\<forall>ev q. view q = None \<longrightarrow> view (send ch ev q) = None) \<and>
     (\<forall>ev q evs lag. view q = Some (evs, lag) \<longrightarrow>
        (\<exists>d \<le> Suc (length evs). view (send ch ev q) = Some (drop d (evs @ [ev]), lag + d))) \<and>
     (\<forall>q. recv ch q = None \<longrightarrow> unseen_in (view q) = 0) \<and>
     (\<forall>q q' ev. recv ch q = Some (Received ev, q') \<longrightarrow>
        (\<exists>evs. view q = Some (ev # evs, 0) \<and> view q' = Some (evs, 0))) \<and>
     (\<forall>q q' k. recv ch q = Some (RecvLagged k, q') \<longrightarrow>
        (\<exists>evs lag. view q = Some (evs, unat k + lag) \<and> view q' = Some (evs, lag))) \<and>
     (\<forall>q q'. recv ch q \<noteq> Some (RecvClosed, q'))"

datatype task_status = Unspawned | Running | Returned | Panicked string | Aborted

datatype main_phase =
    SpawnPoller | Subscribe | SpawnDiscovery | SpawnHealth | Announce | Waiting | Ended
  | MainPanicked string

record ('n, 'c) System =
  shared :: "'n Engine"
  bus :: 'c
  poll_locals :: "Duration \<times> u32"
  listening :: bool
  phase :: main_phase
  poller_task :: task_status
  discovery_task :: task_status
  health_task :: task_status
  joined :: nat
  handled :: "LedgerEvent list"
  skips :: "u64 list"
  answers :: "HealthResponse list"

text \<open>
  The last four fields record the run: how many events had been sent when discovery subscribed, what
  it received, what it was told it missed, and what the health server answered.
\<close>

definition system_start :: "'c Broadcast \<Rightarrow> Components \<Rightarrow> 'n Engine \<Rightarrow> ('n, 'c) System" where
  "system_start ch c s =
     \<lparr>shared = s, bus = channel ch 64, poll_locals = (lp_retry_backoff_initial (poller c), 0),
      listening = False, phase = SpawnPoller, poller_task = Unspawned, discovery_task = Unspawned,
      health_task = Unspawned, joined = 0, handled = [], skips = [], answers = []\<rparr>"

definition log_line :: "LogEvent \<Rightarrow> 'n Engine \<Rightarrow> 'n Engine" where
  "log_line ev s = s\<lparr>log := log s @ [ev]\<rparr>"

fun abort_task :: "task_status \<Rightarrow> task_status" where
  "abort_task Running = Aborted"
| "abort_task st = st"

text \<open>The statements of \<open>main\<close> up to the wait for the signal, one by one.\<close>

definition main_step :: "'c Broadcast \<Rightarrow> ('n, 'c) System \<Rightarrow> ('n, 'c) System" where
  "main_step ch y = (case phase y of
       SpawnPoller \<Rightarrow> y\<lparr>phase := Subscribe, poller_task := Running\<rparr>
     | Subscribe \<Rightarrow> y\<lparr>bus := subscribe ch (bus y), phase := SpawnDiscovery,
         joined := length (broadcasts (shared y))\<rparr>
     | SpawnDiscovery \<Rightarrow> y\<lparr>phase := SpawnHealth, discovery_task := Running\<rparr>
     | SpawnHealth \<Rightarrow> y\<lparr>phase := Announce, health_task := Running\<rparr>
     | Announce \<Rightarrow> y\<lparr>shared := log_line EngineStarted (shared y), phase := Waiting\<rparr>
     | _ \<Rightarrow> y)"

definition SIGNAL_FAILED :: "string \<Rightarrow> string" where
  "SIGNAL_FAILED e = ''failed to register ctrl-c signal handler: '' @ e"

text \<open>
  The signal arrives, or its handler cannot be registered and \<open>main\<close> panics; the runtime then drops
  the tasks.
\<close>

definition on_signal :: "string + unit \<Rightarrow> ('n, 'c) System \<Rightarrow> ('n, 'c) System" where
  "on_signal r y =
     y\<lparr>shared := (case r of Inl e \<Rightarrow> shared y
          | Inr _ \<Rightarrow> log_line EngineStopped (log_line ShutdownReceived (shared y))),
       phase := (case r of Inl e \<Rightarrow> MainPanicked (SIGNAL_FAILED e) | Inr _ \<Rightarrow> Ended),
       poller_task := abort_task (poller_task y), discovery_task := abort_task (discovery_task y),
       health_task := abort_task (health_task y)\<rparr>"

fun status_after :: "task_status \<Rightarrow> ('e, 'a) outcome \<Rightarrow> task_status" where
  "status_after st (Ok _) = st"
| "status_after st (Err _) = Returned"
| "status_after st (Panic msg) = Panicked msg"

definition poll_step ::
  "('n, 'v) Platform \<Rightarrow> 'c Broadcast \<Rightarrow> Components \<Rightarrow> ('n, 'c) System \<Rightarrow> ('n, 'c) System" where
  "poll_step p ch c y =
     (let (backoff, errors) = poll_locals y;
          (r, s') = poll_once p (poller c) backoff errors (shared y);
          sent = drop (length (broadcasts (shared y))) (broadcasts s')
      in y\<lparr>shared := s', bus := fold (send ch) sent (bus y),
           poll_locals := (case r of Ok locals \<Rightarrow> locals | _ \<Rightarrow> poll_locals y),
           poller_task := status_after Running r\<rparr>)"

fun received :: "RecvResult \<Rightarrow> LedgerEvent list" where
  "received (Received ev) = [ev]"
| "received _ = []"

fun missed :: "RecvResult \<Rightarrow> u64 list" where
  "missed (RecvLagged k) = [k]"
| "missed _ = []"

definition discovery_step ::
  "('n, 'v) Platform \<Rightarrow> Components \<Rightarrow> RecvResult \<Rightarrow> 'c \<Rightarrow> ('n, 'c) System \<Rightarrow> ('n, 'c) System" where
  "discovery_step p c r q y =
     (let (x, s') = discovery_run p (discovery c) [r] (shared y)
      in y\<lparr>shared := s', bus := q,
           discovery_task := status_after (if r = RecvClosed then Returned else Running) x,
           handled := handled y @ received r, skips := skips y @ missed r\<rparr>)"

definition listen_step :: "'n tcp_bind \<Rightarrow> Components \<Rightarrow> ('n, 'c) System \<Rightarrow> ('n, 'c) System" where
  "listen_step b c y =
     (let (x, s') = health_listen b (health_server c) (shared y)
      in y\<lparr>shared := s', listening := (x = Ok ()), health_task := status_after Running x\<rparr>)"

definition serve_step :: "ServeEvent \<Rightarrow> ('n, 'c) System \<Rightarrow> ('n, 'c) System" where
  "serve_step ev y =
     (let (x, s') = health_serve [ev] (shared y)
      in y\<lparr>shared := s', health_task := status_after Running x,
           answers := answers y @ (case x of Ok rs \<Rightarrow> rs | _ \<Rightarrow> [])\<rparr>)"

inductive system_step ::
  "('n, 'v) Platform \<Rightarrow> 'c Broadcast \<Rightarrow> 'n tcp_bind \<Rightarrow> Components \<Rightarrow>
     ('n, 'c) System \<Rightarrow> ('n, 'c) System \<Rightarrow> bool" for p ch b c where
  main: "system_step p ch b c y (main_step ch y)"
| signal: "phase y = Waiting \<Longrightarrow> system_step p ch b c y (on_signal r y)"
| poll: "poller_task y = Running \<Longrightarrow> system_step p ch b c y (poll_step p ch c y)"
| discover: "discovery_task y = Running \<Longrightarrow> recv ch (bus y) = Some (r, q) \<Longrightarrow>
    system_step p ch b c y (discovery_step p c r q y)"
| listen: "health_task y = Running \<Longrightarrow> \<not> listening y \<Longrightarrow> system_step p ch b c y (listen_step b c y)"
| serve: "health_task y = Running \<Longrightarrow> listening y \<Longrightarrow> system_step p ch b c y (serve_step ev y)"
| outside: "system_step p ch b c y (y\<lparr>shared := (shared y)\<lparr>net := n\<rparr>\<rparr>)"

section \<open>What a step does\<close>

text \<open>
  The effect of any step, in terms the components' lemmas already speak: the shared state advances by
  the events sent, the handled events and the pending ones stay a subsequence of what was sent, and
  an answer is what the handler reads at that moment.
\<close>

definition transit ::
  "('c \<Rightarrow> backlog) \<Rightarrow> Components \<Rightarrow> ('n, 'c) System \<Rightarrow> LedgerEvent list \<Rightarrow> ('n, 'c) System \<Rightarrow> bool" where
  "transit view c y evs y' \<longleftrightarrow> advanced (shared y) evs (shared y') \<and>
     unat (fst (poll_locals y')) \<le> unat (lp_retry_backoff_max (poller c)) \<and>
     subseq (handled y' @ pending_in (view (bus y'))) (handled y @ pending_in (view (bus y)) @ evs) \<and>
     (answers y' = answers y \<or> answers y' = answers y @ [health_handler (shared y)] \<and> shared y' = shared y)"

lemma broadcast_lawsD:
  assumes "broadcast_laws ch view"
  shows "view (channel ch n) = None" and "view (subscribe ch q) = Some ([], 0)"
    and "view q = None \<Longrightarrow> view (send ch ev q) = None"
    and "view q = Some (evs, lag) \<Longrightarrow>
      \<exists>d \<le> Suc (length evs). view (send ch ev q) = Some (drop d (evs @ [ev]), lag + d)"
    and "recv ch q = None \<Longrightarrow> unseen_in (view q) = 0"
    and "recv ch q = Some (Received ev, q') \<Longrightarrow> \<exists>evs. view q = Some (ev # evs, 0) \<and> view q' = Some (evs, 0)"
    and "recv ch q = Some (RecvLagged k, q') \<Longrightarrow>
      \<exists>evs lag. view q = Some (evs, unat k + lag) \<and> view q' = Some (evs, lag)"
    and "recv ch q \<noteq> Some (RecvClosed, q')"
  using assms by (simp_all add: broadcast_laws_def)

text \<open>Sending: nothing is queued without a receiver; otherwise every value is queued or counted.\<close>

lemma view_fold_send:
  assumes laws: "broadcast_laws ch view"
  shows "view q = None \<Longrightarrow> view (fold (send ch) xs q) = None"
    and "view q = Some (evs, lag) \<Longrightarrow>
      \<exists>d \<le> length (evs @ xs). view (fold (send ch) xs q) = Some (drop d (evs @ xs), lag + d)"
proof -
  show "view q = None \<Longrightarrow> view (fold (send ch) xs q) = None"
    by (induction xs arbitrary: q) (simp_all add: broadcast_lawsD(3) [OF laws])
  show "view q = Some (evs, lag) \<Longrightarrow>
      \<exists>d \<le> length (evs @ xs). view (fold (send ch) xs q) = Some (drop d (evs @ xs), lag + d)"
  proof (induction xs arbitrary: q evs lag)
    case (Cons x xs)
    from broadcast_lawsD(4) [OF laws Cons.prems] obtain d where d: "d \<le> length (evs @ [x])"
      and view: "view (send ch x q) = Some (drop d (evs @ [x]), lag + d)" by fastforce
    from Cons.IH [OF view] obtain d' where d': "d' \<le> length (drop d (evs @ [x]) @ xs)"
      and all: "view (fold (send ch) (x # xs) q) = Some (drop d' (drop d (evs @ [x]) @ xs), lag + d + d')"
      by auto
    have "drop d (evs @ [x]) @ xs = drop d (evs @ x # xs)"
      using d drop_append [of d "evs @ [x]" xs] by simp
    then have "drop d' (drop d (evs @ [x]) @ xs) = drop (d + d') (evs @ x # xs)"
      by (simp only: drop_drop add.commute)
    with d d' all show ?case by (intro exI [of _ "d + d'"]) simp
  qed (auto intro: exI [of _ 0])
qed

lemma pending_fold_send:
  assumes "broadcast_laws ch view"
  shows "subseq (pending_in (view (fold (send ch) evs q))) (pending_in (view q) @ evs)"
proof (cases "view q")
  case (Some b)
  then obtain xs lag where "view q = Some (xs, lag)" by (cases b) simp
  with view_fold_send(2) [OF assms this, of evs] show ?thesis
    by (metis pending_in.simps(2) suffix_drop suffix_imp_subseq)
qed (simp add: view_fold_send [OF assms])

lemma advanced_same: "advanced s [] (s\<lparr>log := l, net := n\<rparr>)" "advanced s [] (s\<lparr>log := l\<rparr>)"
    "advanced s [] (s\<lparr>net := n\<rparr>)" "advanced s [] s"
  by (simp_all add: advanced_def)

lemma advanced_broadcasts: "advanced s evs s' \<Longrightarrow> drop (length (broadcasts s)) (broadcasts s') = evs"
  by (simp add: advanced_def)

lemma main_moved:
  assumes "broadcast_laws ch view" and "unat (fst (poll_locals y)) \<le> unat (lp_retry_backoff_max (poller c))"
  shows "transit view c y [] (main_step ch y)"
  using assms broadcast_lawsD(2) [OF assms(1)]
  by (auto simp: transit_def main_step_def log_line_def advanced_same split: main_phase.splits)

lemma poll_step_cases:
  assumes wired: "wired c" and free: "deadline (shared y) = None"
    and cap: "unat (fst (poll_locals y)) \<le> unat (lp_retry_backoff_max (poller c))"
  obtains evs s' where "advanced (shared y) evs s'"
    and "shared (poll_step p ch c y) = s'" and "bus (poll_step p ch c y) = fold (send ch) evs (bus y)"
    and "unat (fst (poll_locals (poll_step p ch c y))) \<le> unat (lp_retry_backoff_max (poller c))"
    and "poller_task (poll_step p ch c y) = Running \<or>
      poller_task (poll_step p ch c y) = Panicked ADD_OVERFLOW \<and> build p = Dev"
proof -
  obtain backoff errors where locals: "poll_locals y = (backoff, errors)" by fastforce
  have small: "unat (lp_retry_backoff_max (poller c)) \<le> 2 ^ 62"
    and ini: "unat (lp_retry_backoff_initial (poller c)) \<le> unat (lp_retry_backoff_max (poller c))"
    using wired by (auto simp: wired_def)
  have b: "unat backoff \<le> unat (lp_retry_backoff_max (poller c))" using cap locals by simp
  from free small ini b show ?thesis
  proof (cases rule: poll_once_any [of "shared y" "poller c" backoff p errors])
    case (completed backoff' errors' evs s')
    show ?thesis
      by (rule that [OF completed(2)])
        (use completed locals in \<open>simp_all add: poll_step_def advanced_broadcasts [OF completed(2)]\<close>)
  next
    case (overflow s')
    show ?thesis
      by (rule that [OF overflow(2)])
        (use overflow locals b in \<open>simp_all add: poll_step_def advanced_broadcasts [OF overflow(2)]\<close>)
  qed
qed

lemma poll_moved:
  assumes laws: "broadcast_laws ch view" and "wired c" and "deadline (shared y) = None"
    and "unat (fst (poll_locals y)) \<le> unat (lp_retry_backoff_max (poller c))"
  shows "\<exists>evs. transit view c y evs (poll_step p ch c y)"
proof -
  from assms(2-4) obtain evs where "advanced (shared y) evs (shared (poll_step p ch c y))"
    "bus (poll_step p ch c y) = fold (send ch) evs (bus y)"
    "unat (fst (poll_locals (poll_step p ch c y))) \<le> unat (lp_retry_backoff_max (poller c))"
    by (rule poll_step_cases [of c y p ch]) simp
  moreover have "handled (poll_step p ch c y) = handled y" "answers (poll_step p ch c y) = answers y"
    by (simp_all add: poll_step_def Let_def split: prod.splits)
  ultimately show ?thesis
    using pending_fold_send [OF laws, of evs "bus y"] unfolding transit_def
    by (intro exI [of _ evs]) (auto intro: list_emb_append_mono)
qed

lemma discovery_step_apply:
  assumes "deadline (shared y) = None" and "r \<noteq> RecvClosed"
  shows "\<exists>l. discovery_step p c r q y =
    y\<lparr>shared := (shared y)\<lparr>log := log (shared y) @ l\<rparr>, bus := q, discovery_task := Running,
      handled := handled y @ received r, skips := skips y @ missed r\<rparr>"
  using discovery_run_log [OF assms(1), of p "discovery c" "[r]"] assms(2)
  by (auto simp: discovery_step_def)

lemma discovery_moved:
  assumes laws: "broadcast_laws ch view" and free: "deadline (shared y) = None"
    and cap: "unat (fst (poll_locals y)) \<le> unat (lp_retry_backoff_max (poller c))"
    and recv: "recv ch (bus y) = Some (r, q)"
  shows "transit view c y [] (discovery_step p c r q y)"
proof -
  have "r \<noteq> RecvClosed" using recv broadcast_lawsD(8) [OF laws] by auto
  from discovery_step_apply [OF free this, of p c q] obtain l where
    step: "discovery_step p c r q y = y\<lparr>shared := (shared y)\<lparr>log := log (shared y) @ l\<rparr>, bus := q,
      discovery_task := Running, handled := handled y @ received r, skips := skips y @ missed r\<rparr>" by blast
  have "subseq (received r @ pending_in (view q)) (pending_in (view (bus y)))"
    using recv broadcast_lawsD(6,7) [OF laws] \<open>r \<noteq> RecvClosed\<close>
    by (cases r) fastforce+
  then have "subseq (handled y @ received r @ pending_in (view q)) (handled y @ pending_in (view (bus y)))"
    by (intro list_emb_append_mono) auto
  with step cap show ?thesis by (simp add: transit_def advanced_same)
qed

lemma health_moved:
  assumes "unat (fst (poll_locals y)) \<le> unat (lp_retry_backoff_max (poller c))"
  shows "transit view c y [] (listen_step b c y)" and "transit view c y [] (serve_step ev y)"
  using assms
  by (auto simp: transit_def listen_step_def serve_step_def health_listen_apply health_serve_one Let_def
      advanced_same split: prod.splits sum.splits ServeEvent.splits)

lemma step_moved:
  assumes laws: "broadcast_laws ch view" and "wired c" and "deadline (shared y) = None"
    and "unat (fst (poll_locals y)) \<le> unat (lp_retry_backoff_max (poller c))" and "system_step p ch b c y y'"
  shows "\<exists>evs. transit view c y evs y'"
  using assms(5)
proof cases
  case main
  with main_moved [OF laws assms(4)] show ?thesis by blast
next
  case (signal r)
  with assms(4) show ?thesis
    by (intro exI [of _ "[]"]) (auto simp: transit_def on_signal_def log_line_def advanced_same split: sum.splits)
next
  case poll
  with poll_moved [OF assms(1-4)] show ?thesis by blast
next
  case (discover r q)
  with discovery_moved [OF assms(1,3,4)] show ?thesis by blast
next
  case listen
  with health_moved(1) [OF assms(4)] show ?thesis by blast
next
  case (serve ev)
  with health_moved(2) [OF assms(4)] show ?thesis by blast
next
  case (outside n)
  with assms(4) show ?thesis by (intro exI [of _ "[]"]) (simp add: transit_def advanced_same)
qed

section \<open>What every run keeps\<close>

definition answers_ok :: "('n, 'c) System \<Rightarrow> bool" where
  "answers_ok y \<longleftrightarrow> sorted_wrt (\<le>) (map (\<lambda>a. unat (current_ledger a)) (answers y)) \<and>
     (\<forall>a \<in> set (answers y). unat (current_ledger a) \<le> unat (last_known_ledger (shared y)) \<and>
        (current_ledger a = 0 \<or> Advance (current_ledger a) \<in> set (broadcasts (shared y))) \<and>
        last_execution_timestamp a = None \<and> in_flight_count a = 0)"

definition live :: "('c \<Rightarrow> backlog) \<Rightarrow> Components \<Rightarrow> 'n Engine \<Rightarrow> ('n, 'c) System \<Rightarrow> bool" where
  "live view c s0 y \<longleftrightarrow> advanced s0 (broadcasts (shared y)) (shared y) \<and>
     unat (fst (poll_locals y)) \<le> unat (lp_retry_backoff_max (poller c)) \<and>
     subseq (handled y @ pending_in (view (bus y))) (broadcasts (shared y)) \<and> answers_ok y"

lemma initial_advanced:
  assumes "advanced (initial_engine l n) evs s"
  shows "in_flight s = {||}" and "last_confirmed_ts s = 0" and "task_cache s = Map.empty"
    and "deadline s = None" and "last_known_ledger s = 0 \<or> Advance (last_known_ledger s) \<in> set evs"
proof -
  note adv = assms [unfolded advanced_def initial_engine_def InFlightSet_new_def, simplified]
  from adv show "in_flight s = {||}" and "last_confirmed_ts s = 0" and "task_cache s = Map.empty"
    and "deadline s = None" by simp_all
  show "last_known_ledger s = 0 \<or> Advance (last_known_ledger s) \<in> set evs"
  proof (cases evs rule: rev_cases)
    case (snoc xs ev)
    moreover obtain q where "ev = Advance q" using LedgerEvent.exhaust by blast
    ultimately show ?thesis using adv by (simp add: word_unat_eq_iff)
  qed (use adv in \<open>simp add: unat_eq_0\<close>)
qed

lemma advanced_mono: "advanced s evs s' \<Longrightarrow> unat (last_known_ledger s) \<le> unat (last_known_ledger s')"
  using sorted_le_last [of "unat (last_known_ledger s)" "map ledger_of evs" "unat (last_known_ledger s)"]
  by (simp add: advanced_def)

lemma answers_ok_step:
  assumes "answers_ok y" and "transit view c y evs y'"
    and "advanced (initial_engine l n) (broadcasts (shared y)) (shared y)"
  shows "answers_ok y'"
proof -
  have adv: "advanced (shared y) evs (shared y')" using assms(2) by (simp add: transit_def)
  then have more: "set (broadcasts (shared y)) \<subseteq> set (broadcasts (shared y'))" by (auto simp: advanced_def)
  from assms(2) consider "answers y' = answers y"
    | "answers y' = answers y @ [health_handler (shared y)]" "shared y' = shared y"
    by (auto simp: transit_def)
  then show ?thesis
  proof cases
    case 1
    with assms(1) advanced_mono [OF adv] more show ?thesis by (fastforce simp: answers_ok_def)
  next
    case 2
    with assms(1) initial_advanced [OF assms(3)] show ?thesis
      by (auto simp: answers_ok_def health_handler_def len_tasks_def sorted_wrt_append)
  qed
qed

lemma live_step:
  assumes "broadcast_laws ch view" and "wired c" and "live view c (initial_engine l n) y"
    and "system_step p ch b c y y'"
  shows "live view c (initial_engine l n) y'"
proof -
  have adv0: "advanced (initial_engine l n) (broadcasts (shared y)) (shared y)"
    using assms(3) by (simp add: live_def)
  from step_moved [OF assms(1,2) initial_advanced(4) [OF adv0] _ assms(4)] assms(3) obtain evs where
    moved: "transit view c y evs y'" by (auto simp: live_def)
  then have adv: "advanced (shared y) evs (shared y')"
    and sub: "subseq (handled y' @ pending_in (view (bus y'))) ((handled y @ pending_in (view (bus y))) @ evs)"
    by (simp_all add: transit_def)
  have bc: "broadcasts (shared y') = broadcasts (shared y) @ evs" using adv by (simp add: advanced_def)
  have "subseq ((handled y @ pending_in (view (bus y))) @ evs) (broadcasts (shared y) @ evs)"
    using assms(3) by (intro list_emb_append_mono) (auto simp: live_def)
  with sub have "subseq (handled y' @ pending_in (view (bus y'))) (broadcasts (shared y'))"
    unfolding bc by (rule subseq_order.trans)
  moreover have "advanced (initial_engine l n) (broadcasts (shared y')) (shared y')"
    using advanced_trans [OF adv0 adv] bc by simp
  moreover have "answers_ok y'" using answers_ok_step [OF _ moved adv0] assms(3) by (simp add: live_def)
  ultimately show ?thesis using moved by (simp add: live_def transit_def)
qed

lemma live_start:
  "broadcast_laws ch view \<Longrightarrow> wired c \<Longrightarrow>
     live view c (initial_engine l n) (system_start ch c (initial_engine l n))"
  using broadcast_lawsD(1) [of ch view]
  by (auto simp: live_def system_start_def answers_ok_def advanced_def initial_engine_def wired_def)

lemma run_live:
  assumes laws: "broadcast_laws ch view" and main: "engine_main e k n = Inr (c, s)"
    and run: "(system_step p ch b c)\<^sup>*\<^sup>* (system_start ch c s) y"
  obtains l where "s = initial_engine l n" and "live view c (initial_engine l n) y"
proof -
  from started_is_wired [OF main] obtain l where wired: "wired c" and s: "s = initial_engine l n" by blast
  from run have "live view c (initial_engine l n) y"
    unfolding s by (induction rule: rtranclp_induct) (auto intro: live_start live_step laws wired)
  with s show ?thesis by (rule that)
qed

text \<open>The life of the tasks.\<close>

fun status_ok :: "(string \<Rightarrow> bool) \<Rightarrow> task_status \<Rightarrow> bool" where
  "status_ok known Returned = False"
| "status_ok known (Panicked msg) = known msg"
| "status_ok known _ = True"

lemma status_ok_iff:
  "status_ok known st \<longleftrightarrow> st \<in> {Unspawned, Running, Aborted} \<union> Panicked ` {msg. known msg}"
  by (cases st) auto

definition statuses_ok :: "('n, 'v) Platform \<Rightarrow> Components \<Rightarrow> ('n, 'c) System \<Rightarrow> bool" where
  "statuses_ok p c y \<longleftrightarrow> status_ok (\<lambda>msg. msg = ADD_OVERFLOW \<and> build p = Dev) (poller_task y) \<and>
     status_ok (\<lambda>msg. False) (discovery_task y) \<and>
     status_ok (\<lambda>msg. \<exists>e. msg = BIND_FAILED (hs_port (health_server c)) e \<or> msg = SERVE_FAILED e) (health_task y) \<and>
     ((phase y = Ended \<or> (\<exists>msg. phase y = MainPanicked msg)) \<longrightarrow>
        Running \<notin> {poller_task y, discovery_task y, health_task y})"

lemma abort_ok: "status_ok known st \<Longrightarrow> status_ok known (abort_task st)" "abort_task st \<noteq> Running"
  by (cases st; simp)+

lemma statuses_ok_step:
  assumes laws: "broadcast_laws ch view" and wired: "wired c" and live: "live view c (initial_engine l n) y"
    and ok: "statuses_ok p c y" and step: "system_step p ch b c y y'"
  shows "statuses_ok p c y'"
proof -
  have adv0: "advanced (initial_engine l n) (broadcasts (shared y)) (shared y)"
    and cap: "unat (fst (poll_locals y)) \<le> unat (lp_retry_backoff_max (poller c))"
    using live by (simp_all add: live_def)
  note free = initial_advanced(4) [OF adv0]
  from step show ?thesis
  proof cases
    case main
    with ok show ?thesis by (auto simp: statuses_ok_def main_step_def split: main_phase.splits)
  next
    case (signal r)
    with ok show ?thesis by (auto simp: statuses_ok_def on_signal_def abort_ok abort_ok(2) [symmetric])
  next
    case poll
    have frame: "discovery_task (poll_step p ch c y) = discovery_task y"
      "health_task (poll_step p ch c y) = health_task y" "phase (poll_step p ch c y) = phase y"
      by (simp_all add: poll_step_def Let_def split: prod.splits)
    from poll_step_cases [OF wired free cap, of p ch]
    have "poller_task (poll_step p ch c y) = Running \<or>
      poller_task (poll_step p ch c y) = Panicked ADD_OVERFLOW \<and> build p = Dev" by blast
    with frame poll ok show ?thesis by (auto simp: statuses_ok_def)
  next
    case (discover r q)
    then have "r \<noteq> RecvClosed" using broadcast_lawsD(8) [OF laws] by auto
    from discovery_step_apply [OF free this, of p c q] discover ok show ?thesis by (auto simp: statuses_ok_def)
  next
    case listen
    with ok show ?thesis
      by (auto simp: statuses_ok_def listen_step_def health_listen_apply Let_def split: prod.splits sum.splits)
  next
    case (serve ev)
    with ok show ?thesis
      by (auto simp: statuses_ok_def serve_step_def health_serve_one split: ServeEvent.splits)
  next
    case (outside n)
    with ok show ?thesis by (simp add: statuses_ok_def)
  qed
qed

end
