(* ===== verification/Engine_Runs.thy ===== *)
theory Engine_Runs
  imports Engine_System
begin

text \<open>
  Runs of the daemon: the accounting of the broadcast events between the poller and discovery, a
  concrete channel that meets the laws of the broadcast channel, the first steps of a concrete run,
  and the properties of every run.
\<close>

section \<open>No event is lost unnoticed\<close>

definition accounted :: "('c \<Rightarrow> backlog) \<Rightarrow> ('n, 'c) System \<Rightarrow> bool" where
  "accounted view y \<longleftrightarrow>
     (if phase y = SpawnPoller \<or> phase y = Subscribe
      then discovery_task y = Unspawned \<and> handled y = [] \<and> skips y = []
      else \<exists>evs lag. view (bus y) = Some (evs, lag) \<and> joined y \<le> length (broadcasts (shared y)) \<and>
        subseq (handled y @ evs) (drop (joined y) (broadcasts (shared y))) \<and>
        length (handled y) + sum_list (map unat (skips y)) + length evs + lag =
          length (broadcasts (shared y)) - joined y)"

text \<open>Steps that neither send nor receive.\<close>

lemma accounted_frame:
  assumes "accounted view y" and "bus y' = bus y" and "broadcasts (shared y') = broadcasts (shared y)"
    and "joined y' = joined y" and "handled y' = handled y" and "skips y' = skips y"
    and "(phase y' = SpawnPoller \<or> phase y' = Subscribe) = (phase y = SpawnPoller \<or> phase y = Subscribe)"
    and "discovery_task y = Unspawned \<longrightarrow> phase y = SpawnPoller \<or> phase y = Subscribe \<longrightarrow> discovery_task y' = Unspawned"
  shows "accounted view y'"
  using assms unfolding accounted_def by (simp split: if_splits)

lemma accounted_main:
  assumes laws: "broadcast_laws ch view" and acc: "accounted view y"
  shows "accounted view (main_step ch y)"
proof (cases "phase y = Subscribe")
  case True
  with acc broadcast_lawsD(2) [OF laws] show ?thesis
    by (simp add: accounted_def main_step_def)
next
  case False
  with acc show ?thesis
    by (cases "phase y") (auto simp: main_step_def accounted_def log_line_def)
qed

lemma accounted_poll:
  assumes laws: "broadcast_laws ch view" and acc: "accounted view y"
    and adv: "advanced (shared y) evs (shared y')" and bus: "bus y' = fold (send ch) evs (bus y)"
    and frame: "phase y' = phase y" "discovery_task y' = discovery_task y" "joined y' = joined y"
      "handled y' = handled y" "skips y' = skips y"
  shows "accounted view y'"
proof (cases "phase y = SpawnPoller \<or> phase y = Subscribe")
  case True
  with acc frame show ?thesis by (simp add: accounted_def)
next
  case False
  with acc obtain xs lag where view: "view (bus y) = Some (xs, lag)"
    and le: "joined y \<le> length (broadcasts (shared y))"
    and sub: "subseq (handled y @ xs) (drop (joined y) (broadcasts (shared y)))"
    and sum: "length (handled y) + sum_list (map unat (skips y)) + length xs + lag =
      length (broadcasts (shared y)) - joined y"
    by (auto simp: accounted_def)
  from view_fold_send(2) [OF laws view, of evs] obtain d where d: "d \<le> length (xs @ evs)"
    and view': "view (bus y') = Some (drop d (xs @ evs), lag + d)" unfolding bus by blast
  have bc: "broadcasts (shared y') = broadcasts (shared y) @ evs" using adv by (simp add: advanced_def)
  have "subseq (handled y @ drop d (xs @ evs)) ((handled y @ xs) @ evs)"
    by (simp only: append_assoc) (intro list_emb_append_mono suffix_imp_subseq suffix_drop subseq_order.refl)
  moreover have "subseq ((handled y @ xs) @ evs) (drop (joined y) (broadcasts (shared y)) @ evs)"
    using sub by (intro list_emb_append_mono) simp_all
  ultimately have "subseq (handled y @ drop d (xs @ evs)) (drop (joined y) (broadcasts (shared y)) @ evs)"
    by (rule subseq_order.trans)
  with False view' le sum d frame show ?thesis by (simp add: accounted_def bc)
qed

lemma accounted_receive:
  assumes laws: "broadcast_laws ch view" and acc: "accounted view y" and run: "discovery_task y = Running"
    and recv: "recv ch (bus y) = Some (r, q)"
    and frame: "phase y' = phase y" "joined y' = joined y" "bus y' = q"
      "broadcasts (shared y') = broadcasts (shared y)"
      "handled y' = handled y @ received r" "skips y' = skips y @ missed r"
  shows "accounted view y'"
proof -
  from acc run have late: "\<not> (phase y = SpawnPoller \<or> phase y = Subscribe)" by (auto simp: accounted_def)
  show ?thesis
  proof (cases r)
    case (Received ev)
    from broadcast_lawsD(6) [OF laws recv [unfolded Received]] late acc Received frame show ?thesis
      by (auto simp: accounted_def)
  next
    case (RecvLagged k)
    from broadcast_lawsD(7) [OF laws recv [unfolded RecvLagged]] late acc RecvLagged frame show ?thesis
      by (auto simp: accounted_def)
  next
    case RecvClosed
    with recv broadcast_lawsD(8) [OF laws] show ?thesis by blast
  qed
qed

lemma accounted_step:
  assumes laws: "broadcast_laws ch view" and wired: "wired c" and live: "live view c (initial_engine l n) y"
    and acc: "accounted view y" and step: "system_step p ch b c y y'"
  shows "accounted view y'"
proof -
  have adv0: "advanced (initial_engine l n) (broadcasts (shared y)) (shared y)"
    and cap: "unat (fst (poll_locals y)) \<le> unat (lp_retry_backoff_max (poller c))"
    using live by (simp_all add: live_def)
  note free = initial_advanced(4) [OF adv0]
  from step show ?thesis
  proof cases
    case main
    with accounted_main [OF laws acc] show ?thesis by simp
  next
    case (signal r)
    with acc show ?thesis
      by (intro accounted_frame [OF acc]) (auto simp: on_signal_def log_line_def split: sum.splits)
  next
    case poll
    from poll_step_cases [OF wired free cap, of p ch] obtain evs where
      "advanced (shared y) evs (shared y')" "bus y' = fold (send ch) evs (bus y)" unfolding poll by metis
    then show ?thesis
      by (rule accounted_poll [OF laws acc]) (simp_all add: poll poll_step_def Let_def split: prod.splits)
  next
    case (discover r q)
    then have "r \<noteq> RecvClosed" using broadcast_lawsD(8) [OF laws] by auto
    from discovery_step_apply [OF free this, of p c q] discover show ?thesis
      by (intro accounted_receive [OF laws acc discover(2,3)]) auto
  next
    case listen
    then show ?thesis
      by (intro accounted_frame [OF acc])
        (auto simp: listen_step_def health_listen_apply Let_def split: prod.splits sum.splits)
  next
    case (serve ev)
    then show ?thesis
      by (intro accounted_frame [OF acc]) (auto simp: serve_step_def health_serve_one split: ServeEvent.splits)
  next
    case (outside n)
    then show ?thesis by (intro accounted_frame [OF acc]) simp_all
  qed
qed

lemma run_accounted:
  assumes laws: "broadcast_laws ch view" and main: "engine_main e k n = Inr (c, s)"
    and run: "(system_step p ch b c)\<^sup>*\<^sup>* (system_start ch c s) y"
  shows "accounted view y"
proof -
  from started_is_wired [OF main] have wired: "wired c" by blast
  from run show ?thesis
  proof (induction rule: rtranclp_induct)
    case base
    show ?case by (simp add: accounted_def system_start_def)
  next
    case (step y y')
    from run_live [OF laws main step(1)] obtain l where "live view c (initial_engine l n) y" by blast
    from accounted_step [OF laws wired this step(3,2)] show ?case .
  qed
qed

text \<open>With nothing left to receive and no lag reported, discovery has caught up.\<close>

lemma caught_up:
  assumes "broadcast_laws ch view" and "accounted view y" and "recv ch (bus y) = None" and "skips y = []"
    and "phase y \<noteq> SpawnPoller \<and> phase y \<noteq> Subscribe"
  shows "handled y = drop (joined y) (broadcasts (shared y))"
proof -
  have "unseen_in (view (bus y)) = 0" by (rule broadcast_lawsD(5) [OF assms(1,3)])
  with assms(2,4,5) have "subseq (handled y) (drop (joined y) (broadcasts (shared y)))"
    "length (handled y) = length (drop (joined y) (broadcasts (shared y)))"
    by (auto simp: accounted_def)
  then show ?thesis by (rule subseq_same_length)
qed

section \<open>A concrete channel\<close>

text \<open>
  A bounded queue that drops its oldest values when full and counts what it dropped; the count is
  reported in pieces that fit the type.
\<close>

record demo_bus =
  queue :: "LedgerEvent list"
  room :: nat
  subscribed :: bool
  dropped :: nat

definition demo_send :: "LedgerEvent \<Rightarrow> demo_bus \<Rightarrow> demo_bus" where
  "demo_send ev q =
     (if subscribed q then
        (let excess = Suc (length (queue q)) - room q
         in q\<lparr>queue := drop excess (queue q @ [ev]), dropped := dropped q + min excess (Suc (length (queue q)))\<rparr>)
      else q)"

definition demo_recv :: "demo_bus \<Rightarrow> (RecvResult \<times> demo_bus) option" where
  "demo_recv q =
     (if \<not> subscribed q then None
      else if 0 < dropped q then
        (let k = min (dropped q) (2 ^ 64 - 1) in Some (RecvLagged (of_nat k), q\<lparr>dropped := dropped q - k\<rparr>))
      else case queue q of [] \<Rightarrow> None | ev # evs \<Rightarrow> Some (Received ev, q\<lparr>queue := evs\<rparr>))"

definition demo_view :: "demo_bus \<Rightarrow> backlog" where
  "demo_view q = (if subscribed q then Some (queue q, dropped q) else None)"

definition demo_channel :: "demo_bus Broadcast" where
  "demo_channel =
     \<lparr>channel = (\<lambda>n. \<lparr>queue = [], room = n, subscribed = False, dropped = 0\<rparr>),
      subscribe = (\<lambda>q. q\<lparr>queue := [], subscribed := True, dropped := 0\<rparr>),
      send = demo_send, recv = demo_recv\<rparr>"

lemma demo_send_view:
  assumes "demo_view q = Some (evs, lag)"
  shows "\<exists>d \<le> Suc (length evs). demo_view (demo_send ev q) = Some (drop d (evs @ [ev]), lag + d)"
proof -
  let ?excess = "Suc (length evs) - room q"
  have "demo_view (demo_send ev q) = Some (drop ?excess (evs @ [ev]), lag + ?excess)"
    using assms by (auto simp: demo_view_def demo_send_def Let_def split: if_splits)
  then show ?thesis by (intro exI [of _ ?excess]) simp
qed

lemma demo_recv_view:
  "demo_recv q = None \<Longrightarrow> unseen_in (demo_view q) = 0"
  "demo_recv q = Some (Received ev, q') \<Longrightarrow> \<exists>evs. demo_view q = Some (ev # evs, 0) \<and> demo_view q' = Some (evs, 0)"
  "demo_recv q = Some (RecvLagged k, q') \<Longrightarrow>
     \<exists>evs lag. demo_view q = Some (evs, unat k + lag) \<and> demo_view q' = Some (evs, lag)"
  "demo_recv q \<noteq> Some (RecvClosed, q')"
proof -
  have fits: "unat (of_nat (min n (2 ^ 64 - 1)) :: u64) = min n (2 ^ 64 - 1)" for n
    by (simp add: unat_of_nat)
  show "demo_recv q = None \<Longrightarrow> unseen_in (demo_view q) = 0"
    "demo_recv q = Some (Received ev, q') \<Longrightarrow> \<exists>evs. demo_view q = Some (ev # evs, 0) \<and> demo_view q' = Some (evs, 0)"
    "demo_recv q \<noteq> Some (RecvClosed, q')"
    by (auto simp: demo_recv_def demo_view_def Let_def split: if_splits list.splits)
  show "demo_recv q = Some (RecvLagged k, q') \<Longrightarrow>
     \<exists>evs lag. demo_view q = Some (evs, unat k + lag) \<and> demo_view q' = Some (evs, lag)"
    using fits [of "dropped q"] by (auto simp: demo_recv_def demo_view_def Let_def split: if_splits list.splits)
qed

lemma demo_channel_laws: "broadcast_laws demo_channel demo_view"
  unfolding broadcast_laws_def demo_channel_def Broadcast.simps
  using demo_send_view demo_recv_view by (auto simp: demo_view_def demo_send_def simp del: unseen_in.simps)

text \<open>
  The first steps of a started engine whose endpoint reports ledger 7: the tasks are spawned, the
  poller polls once, discovery receives the event and the health server answers one request.
\<close>

definition demo_bind :: "demo_net tcp_bind" where
  "demo_bind addr n = (Inr (), n)"

definition demo_start :: "demo_net" where
  "demo_start = net (demo_engine [result_reply [(''sequence'', JNum 7)]])"

definition demo_comps :: Components where
  "demo_comps = wire demo_config ''GKEEPER'' [1, 2]"

definition demo_shared :: "demo_net Engine" where
  "demo_shared = initial_engine [configuration_loaded demo_config, KeeperIdentityResolved ''GKEEPER''] demo_start"

lemma demo_started: "engine_main demo_process (demo_keys ''GKEEPER'') demo_start = Inr (demo_comps, demo_shared)"
  by (simp add: engine_main_def demo_from_env derive_keypair_def demo_keys_def Let_def demo_comps_def
      demo_shared_def demo_config_def)

lemma demo_polls:
  "\<exists>n l. poll_once (demo_platform Dev) lp b 0 demo_shared =
     (Ok (b, 0), demo_shared\<lparr>last_known_ledger := 7, broadcasts := [Advance 7], log := l, net := n\<rparr>)"
  by (simp add: poll_once_def get_latest_ledger_def rpc_call_def comp_simps Let_def bind_c_def demo_defs
      demo_shared_def demo_start_def initial_engine_def)

abbreviation demo_system_step :: "(demo_net, demo_bus) System \<Rightarrow> (demo_net, demo_bus) System \<Rightarrow> bool" where
  "demo_system_step \<equiv> system_step (demo_platform Dev) demo_channel demo_bind demo_comps"

abbreviation demo_system :: "(demo_net, demo_bus) System" where
  "demo_system \<equiv> system_start demo_channel demo_comps demo_shared"

lemma spawned:
  "(system_step p ch b c)\<^sup>*\<^sup>* y ((main_step ch ^^ n) y)"
  by (induction n) (auto intro: rtranclp.rtrancl_into_rtrancl system_step.main)

lemma demo_unsent [simp]: "broadcasts demo_shared = []"
  by (simp add: demo_shared_def initial_engine_def)

lemma demo_spawned:
  "(main_step demo_channel ^^ 4) demo_system = demo_system
     \<lparr>bus := \<lparr>queue = [], room = 64, subscribed = True, dropped = 0\<rparr>, phase := Announce,
      poller_task := Running, discovery_task := Running, health_task := Running\<rparr>"
  by (simp add: eval_nat_numeral main_step_def system_start_def demo_channel_def)

lemma demo_polled:
  assumes "y1 = (main_step demo_channel ^^ 4) demo_system"
  obtains n l where "poll_step (demo_platform Dev) demo_channel demo_comps y1 =
    \<lparr>shared = demo_shared\<lparr>last_known_ledger := 7, broadcasts := [Advance 7], log := l, net := n\<rparr>,
     bus = \<lparr>queue = [Advance 7], room = 64, subscribed = True, dropped = 0\<rparr>,
     poll_locals = (lp_retry_backoff_initial (poller demo_comps), 0), listening = False, phase = Announce,
     poller_task = Running, discovery_task = Running, health_task = Running, joined = 0, handled = [], skips = [], answers = []\<rparr>"
proof -
  obtain n l where polls: "poll_once (demo_platform Dev) (poller demo_comps)
      (lp_retry_backoff_initial (poller demo_comps)) 0 demo_shared =
     (Ok (lp_retry_backoff_initial (poller demo_comps), 0),
      demo_shared\<lparr>last_known_ledger := 7, broadcasts := [Advance 7], log := l, net := n\<rparr>)"
    using demo_polls by blast
  from polls show ?thesis
    by (intro that [of n l])
      (simp only: assms demo_spawned, simp add: system_start_def poll_step_def demo_channel_def demo_send_def)
qed

lemma demo_system_runs:
  obtains y where "demo_system_step\<^sup>*\<^sup>* demo_system y" and "handled y = [Advance 7]" and "skips y = []" and "phase y = Announce"
    and "recv demo_channel (bus y) = None"
    and "map current_ledger (answers y) = [7]" and "health_task y = Running"
proof -
  define y1 where "y1 = (main_step demo_channel ^^ 4) demo_system"
  have running: "poller_task y1 = Running" by (simp add: y1_def demo_spawned)
  define y2 where "y2 = poll_step (demo_platform Dev) demo_channel demo_comps y1"
  obtain n l where y2: "y2 =
    \<lparr>shared = demo_shared\<lparr>last_known_ledger := 7, broadcasts := [Advance 7], log := l, net := n\<rparr>,
     bus = \<lparr>queue = [Advance 7], room = 64, subscribed = True, dropped = 0\<rparr>,
     poll_locals = (lp_retry_backoff_initial (poller demo_comps), 0), listening = False, phase = Announce,
     poller_task = Running, discovery_task = Running, health_task = Running, joined = 0, handled = [], skips = [], answers = []\<rparr>"
    unfolding y2_def by (rule demo_polled [OF y1_def])
  let ?q = "\<lparr>queue = [], room = 64, subscribed = True, dropped = 0\<rparr>"
  have recv: "recv demo_channel (bus y2) = Some (Received (Advance 7), ?q)"
    by (simp add: y2 demo_channel_def demo_recv_def)
  have "deadline (shared y2) = None" by (simp add: y2 demo_shared_def initial_engine_def)
  from discovery_step_apply [OF this, of "Received (Advance 7)" "demo_platform Dev" demo_comps ?q]
  obtain l' where "discovery_step (demo_platform Dev) demo_comps (Received (Advance 7)) ?q y2 =
      y2\<lparr>shared := (shared y2)\<lparr>log := log (shared y2) @ l'\<rparr>, bus := ?q, discovery_task := Running,
         handled := handled y2 @ [Advance 7], skips := skips y2\<rparr>"
    by auto
  moreover define y3 where "y3 = discovery_step (demo_platform Dev) demo_comps (Received (Advance 7)) ?q y2"
  ultimately have y3: "handled y3 = [Advance 7]" "answers y3 = []" "health_task y3 = Running"
      "\<not> listening y3" "last_known_ledger (shared y3) = 7" "skips y3 = []" "phase y3 = Announce" "bus y3 = ?q"
    by (simp_all add: y2)
  define y4 where "y4 = listen_step demo_bind demo_comps y3"
  have y4: "listening y4" "health_task y4 = Running" "handled y4 = [Advance 7]" "answers y4 = []"
      "last_known_ledger (shared y4) = 7" "skips y4 = []" "phase y4 = Announce" "bus y4 = ?q"
    by (simp_all add: y4_def listen_step_def health_listen_apply demo_bind_def y3)
  have "demo_system_step\<^sup>*\<^sup>* demo_system y1" unfolding y1_def by (rule spawned)
  moreover have "demo_system_step y1 y2" unfolding y2_def by (rule poll) (rule running)
  moreover have "demo_system_step y2 y3" unfolding y3_def by (rule discover [OF _ recv]) (simp add: y2)
  moreover have "demo_system_step y3 y4" unfolding y4_def by (rule listen) (simp_all add: y3)
  moreover have "demo_system_step y4 (serve_step HealthRequest y4)" by (rule serve) (simp_all add: y4)
  ultimately have "demo_system_step\<^sup>*\<^sup>* demo_system (serve_step HealthRequest y4)"
    by (meson rtranclp.rtrancl_into_rtrancl)
  moreover have "handled (serve_step HealthRequest y4) = [Advance 7]" "skips (serve_step HealthRequest y4) = []"
    "phase (serve_step HealthRequest y4) = Announce" "recv demo_channel (bus (serve_step HealthRequest y4)) = None"
    "map current_ledger (answers (serve_step HealthRequest y4)) = [7]" "health_task (serve_step HealthRequest y4) = Running"
    by (simp_all add: serve_step_def comp_simps health_handler_def Let_def y4 demo_channel_def demo_recv_def)
  ultimately show ?thesis by (rule that)
qed

section \<open>Properties\<close>

lemma sorted_wrt_subseq: "subseq xs ys \<Longrightarrow> sorted_wrt P ys \<Longrightarrow> sorted_wrt P xs"
  by (induction rule: list_emb.induct) (auto dest: list_emb_set)

lemma run_statuses:
  assumes laws: "broadcast_laws ch view" and main: "engine_main e k n = Inr (c, s)"
    and run: "(system_step p ch b c)\<^sup>*\<^sup>* (system_start ch c s) y"
  shows "statuses_ok p c y"
proof -
  from started_is_wired [OF main] have wired: "wired c" by blast
  from run show ?thesis
  proof (induction rule: rtranclp_induct)
    case base
    show ?case by (simp add: statuses_ok_def system_start_def)
  next
    case (step y y')
    from run_live [OF laws main step(1)] obtain l where "live view c (initial_engine l n) y" by blast
    from statuses_ok_step [OF laws wired this step(3,2)] show ?case .
  qed
qed

text \<open>
  C23: ledgers reach discovery in order and none is lost unnoticed.  However poller, discovery, health
  server, \<open>main\<close> and the network interleave, the events discovery has handled are a subsequence of
  the events the poller sent, their ledgers strictly increase, and none is beyond the ledger the
  poller has reached.  Once discovery has subscribed, every event sent since is handled, reported to
  it as skipped, or still in the channel for it; so when nothing is left to receive and no lag was
  reported, it has handled exactly the events sent since.
\<close>
theorem discovery_sees_increasing_ledgers:
  assumes "broadcast_laws ch view" and "engine_main e k n = Inr (c, s)"
    and "(system_step p ch b c)\<^sup>*\<^sup>* (system_start ch c s) y"
  shows "subseq (handled y) (broadcasts (shared y)) \<and> sorted_wrt (<) (map ledger_of (handled y)) \<and>
    (\<forall>ev \<in> set (handled y). ledger_of ev \<le> unat (last_known (shared y))) \<and>
    (phase y \<noteq> SpawnPoller \<and> phase y \<noteq> Subscribe \<longrightarrow>
       length (handled y) + sum_list (map unat (skips y)) + unseen_in (view (bus y)) =
         length (broadcasts (shared y)) - joined y \<and>
       (recv ch (bus y) = None \<and> skips y = [] \<longrightarrow> handled y = drop (joined y) (broadcasts (shared y))))"
proof -
  from run_live [OF assms] obtain l where "live view c (initial_engine l n) y" by blast
  then have adv: "advanced (initial_engine l n) (broadcasts (shared y)) (shared y)"
    and "subseq (handled y @ pending_in (view (bus y))) (broadcasts (shared y))" by (simp_all add: live_def)
  then have sub: "subseq (handled y) (broadcasts (shared y))"
    using list_emb_append2 subseq_order.trans by (metis list_emb_prefix subseq_order.order_refl)
  have sorted: "sorted_wrt (<) (0 # map ledger_of (broadcasts (shared y)))"
    and last: "unat (last_known_ledger (shared y)) = last (0 # map ledger_of (broadcasts (shared y)))"
    using adv by (simp_all add: advanced_def initial_engine_def)
  have "ledger_of ev \<le> unat (last_known_ledger (shared y))" if "ev \<in> set (handled y)" for ev
    unfolding last using list_emb_set [OF sub that] by (intro sorted_le_last [OF sorted]) auto
  moreover have "sorted_wrt (<) (map ledger_of (handled y))"
    using sorted subseq_map [OF sub, of ledger_of] sorted_wrt_subseq by auto
  ultimately show ?thesis
    using sub run_accounted [OF assms] caught_up [OF assms(1) run_accounted [OF assms]]
    by (auto simp: last_known_def accounted_def)
qed

theorem discovery_sees_increasing_ledgers_witness:
  "\<exists>y. demo_system_step\<^sup>*\<^sup>* demo_system y \<and> handled y = [Advance 7] \<and>
     drop (joined y) (broadcasts (shared y)) = [Advance 7] \<and> 7 \<le> unat (last_known (shared y))"
proof -
  obtain y where run: "demo_system_step\<^sup>*\<^sup>* demo_system y" and y: "handled y = [Advance 7]" "skips y = []"
    "phase y = Announce" "recv demo_channel (bus y) = None"
    by (rule demo_system_runs)
  from discovery_sees_increasing_ledgers [OF demo_channel_laws demo_started run] run y show ?thesis by auto
qed

text \<open>
  C37: what the running engine does and reports.  As long as the task query is the stub it is, no
  schedule of the tasks ever puts a task in flight, caches one or stores a confirmation; the health
  endpoint keeps answering an idle engine, with ledgers that never decrease and that are zero or
  were broadcast.
\<close>
theorem running_engine_is_idle:
  assumes "broadcast_laws ch view" and "engine_main e k n = Inr (c, s)"
    and "(system_step p ch b c)\<^sup>*\<^sup>* (system_start ch c s) y"
  shows "is_empty (in_flight (shared y)) \<and> task_cache (shared y) = Map.empty \<and>
    last_confirmed (shared y) = None \<and>
    sorted_wrt (\<le>) (map (\<lambda>a. unat (current_ledger a)) (answers y)) \<and>
    (\<forall>a \<in> set (answers y). last_execution_timestamp a = None \<and> in_flight_count a = 0 \<and>
       (current_ledger a = 0 \<or> Advance (current_ledger a) \<in> set (broadcasts (shared y))))"
proof -
  from run_live [OF assms] obtain l where "live view c (initial_engine l n) y" by blast
  then have "advanced (initial_engine l n) (broadcasts (shared y)) (shared y)" and "answers_ok y"
    by (simp_all add: live_def)
  with initial_advanced [OF this(1)] show ?thesis
    by (simp add: answers_ok_def is_empty_def len_tasks_def last_confirmed_def)
qed

theorem running_engine_is_idle_witness:
  "\<exists>y. demo_system_step\<^sup>*\<^sup>* demo_system y \<and> map current_ledger (answers y) = [7] \<and>
     is_empty (in_flight (shared y))"
proof -
  obtain y where run: "demo_system_step\<^sup>*\<^sup>* demo_system y" and "map current_ledger (answers y) = [7]"
    by (rule demo_system_runs)
  moreover have "is_empty (in_flight (shared y))"
    using running_engine_is_idle [OF demo_channel_laws demo_started run] by (rule conjunct1)
  ultimately show ?thesis using run by (intro exI [of _ y] conjI)
qed

text \<open>
  C25: how the tasks can end.  The poller runs until it is aborted, unless a \<open>dev\<close> build overflows its
  error counter; discovery runs until it is aborted, it never panics and never sees the channel
  closed; the health task can only panic, because its port cannot be bound (the message names the
  configured port) or because serving fails, and that leaves the others running.  When \<open>main\<close> has
  ended, no task is running.
\<close>
theorem task_endings:
  assumes "broadcast_laws ch view" and "engine_main e k n = Inr (c, s)"
    and "(system_step p ch b c)\<^sup>*\<^sup>* (system_start ch c s) y"
  shows "poller_task y \<in> {Unspawned, Running, Aborted} \<union>
      (if build p = Dev then {Panicked ADD_OVERFLOW} else {}) \<and>
    discovery_task y \<in> {Unspawned, Running, Aborted} \<and>
    health_task y \<in> {Unspawned, Running, Aborted} \<union>
      range (\<lambda>err. Panicked (BIND_FAILED (hs_port (health_server c)) err)) \<union>
      range (\<lambda>err. Panicked (SERVE_FAILED err)) \<and>
    (phase y = Ended \<longrightarrow> Running \<notin> {poller_task y, discovery_task y, health_task y})"
proof -
  note statuses = run_statuses [OF assms, unfolded statuses_ok_def status_ok_iff]
  have "poller_task y \<in> {Unspawned, Running, Aborted} \<union> (if build p = Dev then {Panicked ADD_OVERFLOW} else {})"
    using conjunct1 [OF statuses] by auto
  moreover have "discovery_task y \<in> {Unspawned, Running, Aborted}"
    using conjunct1 [OF conjunct2 [OF statuses]] by simp
  moreover have "health_task y \<in> {Unspawned, Running, Aborted} \<union>
      range (\<lambda>err. Panicked (BIND_FAILED (hs_port (health_server c)) err)) \<union>
      range (\<lambda>err. Panicked (SERVE_FAILED err))"
    using conjunct1 [OF conjunct2 [OF conjunct2 [OF statuses]]] by auto
  moreover have "phase y = Ended \<longrightarrow> Running \<notin> {poller_task y, discovery_task y, health_task y}"
    using conjunct2 [OF conjunct2 [OF conjunct2 [OF statuses]]] by simp
  ultimately show ?thesis by (intro conjI)
qed

theorem task_endings_witness:
  "\<exists>y. demo_system_step\<^sup>*\<^sup>* demo_system y \<and> health_task y = Running \<and>
     discovery_task y \<in> {Unspawned, Running, Aborted}"
proof -
  obtain y where run: "demo_system_step\<^sup>*\<^sup>* demo_system y" and "health_task y = Running"
    by (rule demo_system_runs)
  moreover have "discovery_task y \<in> {Unspawned, Running, Aborted}"
    using task_endings [OF demo_channel_laws demo_started run] by (elim conjE)
  ultimately show ?thesis using run by (intro exI [of _ y] conjI)
qed

end
