(* ===== verification/Engine_Tests.thy ===== *)
theory Engine_Tests
  imports Engine_Main
begin

text \<open>
  The unit tests the engine carries in \<open>config.rs\<close>, \<open>errors.rs\<close> and \<open>in_flight.rs\<close>, run on the
  model, and the guard of its build script.  Each test is a truth value under the name of its
  function; it is true exactly when none of its assertions fails.  The concurrent test quantifies
  over every schedule of its tasks.
\<close>

section \<open>The build script\<close>

text \<open>
  \<open>build.rs\<close> refuses WebAssembly targets.  An unset variable reads as the empty text.
\<close>

definition WASM_REFUSED :: string where
  "WASM_REFUSED = ''the-engine cannot be compiled for wasm32. It is a native Tokio daemon. '' @
     ''Use `cargo build --package the-anchor` for the WASM contract.''"

definition build_main :: "(string \<Rightarrow> string option) \<Rightarrow> string + unit" where
  "build_main vars =
     (let target = unwrap_or '''' (vars ''CARGO_CFG_TARGET_ARCH'')
      in if target = ''wasm32'' then Inl WASM_REFUSED else Inr ())"

section \<open>Configuration\<close>

text \<open>\<open>clear_env\<close> followed by the \<open>set_var\<close> calls; there is no configuration file.\<close>

definition test_process :: "(string \<times> string) list \<Rightarrow> Process" where
  "test_process vars =
     \<lparr>env_var = map_of vars, path_exists = (\<lambda>_. False), read_to_string = (\<lambda>_. Inl ''not found''),
      toml_from_str = (\<lambda>_. Inl ''not read'')\<rparr>"

definition TEST_SEED :: string where
  "TEST_SEED = ''SCZANGBA4XLMSEGEBHR5QKOH6X6EN73OOXNL7WI736DKCKDKB2XCJXE''"

definition set_required :: "(string \<times> string) list" where
  "set_required =
     [(''KEEPER_KEYPAIR'', TEST_SEED),
      (''RPC_ENDPOINT_URL'', ''https://soroban-testnet.stellar.org''),
      (''ANCHOR_CONTRACT_ADDRESS'', ''CAAAAAAAAAAAAAAAAAAAAAAAAAAAAAAAAAAAAAAAAAAAAAAAAAAABSC4'')]"

definition loads :: "(string \<times> string) list \<Rightarrow> (EngineConfig \<Rightarrow> bool) \<Rightarrow> bool" where
  "loads vars assertion = (case from_env (test_process vars) [] of
       (Ok cfg, _) \<Rightarrow> assertion cfg | _ \<Rightarrow> False)"

definition fails_naming :: "(string \<times> string) list \<Rightarrow> string \<Rightarrow> bool" where
  "fails_naming vars field = (case from_env (test_process vars) [] of
       (Err e, _) \<Rightarrow> sublist field (display_error e) | _ \<Rightarrow> False)"

definition missing_keeper_keypair_returns_error :: bool where
  "missing_keeper_keypair_returns_error \<longleftrightarrow> fails_naming
     [(''RPC_ENDPOINT_URL'', ''https://example.com''), (''ANCHOR_CONTRACT_ADDRESS'', ''CAAAA'')]
     ''KEEPER_KEYPAIR''"

definition missing_rpc_url_returns_error :: bool where
  "missing_rpc_url_returns_error \<longleftrightarrow> fails_naming
     [(''KEEPER_KEYPAIR'', TEST_SEED), (''ANCHOR_CONTRACT_ADDRESS'', ''CAAAA'')] ''RPC_ENDPOINT_URL''"

definition missing_anchor_address_returns_error :: bool where
  "missing_anchor_address_returns_error \<longleftrightarrow> fails_naming
     [(''KEEPER_KEYPAIR'', TEST_SEED), (''RPC_ENDPOINT_URL'', ''https://example.com'')]
     ''ANCHOR_CONTRACT_ADDRESS''"

definition poll_interval_out_of_range_returns_error :: bool where
  "poll_interval_out_of_range_returns_error \<longleftrightarrow>
     fails_naming (set_required @ [(''POLL_INTERVAL_SECS'', ''6'')]) ''POLL_INTERVAL_SECS''"

definition task_query_timeout_over_limit_returns_error :: bool where
  "task_query_timeout_over_limit_returns_error \<longleftrightarrow>
     fails_naming (set_required @ [(''TASK_QUERY_TIMEOUT_SECS'', ''11'')]) ''TASK_QUERY_TIMEOUT_SECS''"

definition defaults_are_applied_when_optional_vars_absent :: bool where
  "defaults_are_applied_when_optional_vars_absent \<longleftrightarrow> loads set_required (\<lambda>cfg.
     poll_interval cfg = DEFAULT_POLL_INTERVAL_SECS \<and> health_port cfg = DEFAULT_HEALTH_PORT \<and>
     max_retries cfg = DEFAULT_MAX_RETRIES)"

definition env_var_overrides_default :: bool where
  "env_var_overrides_default \<longleftrightarrow>
     loads (set_required @ [(''HEALTH_PORT'', ''9090'')]) (\<lambda>cfg. health_port cfg = 9090)"

lemma sublist_middle: "sublist field (xs @ field @ ys)"
  unfolding sublist_def by blast

lemma display_names_field: "sublist field (display_error (NonTransient (ConfigInvalid field reason)))"
  using sublist_middle [of field "''non-transient: config validation failed: ''" "'' '' @ EM_DASH @ '' '' @ reason"]
  by simp

lemmas config_test_eval = test_process_def set_required_def TEST_SEED_def from_env_def find_config_file_def
  load_file_config_def required_field_def resolve_str_def resolve_uint_def or_else_def validate_ranges_def
  comp_simps Let_def accepted_config_def blank_def byte_of_def FileConfig_default_def parse_uint_def strip_plus_def digit_value_def

lemma config_tests:
  "missing_keeper_keypair_returns_error" "missing_rpc_url_returns_error"
  "missing_anchor_address_returns_error"
  by (simp_all add: missing_keeper_keypair_returns_error_def missing_rpc_url_returns_error_def
      missing_anchor_address_returns_error_def fails_naming_def config_test_eval display_names_field
      del: display_error.simps)
lemma config_range_tests:
  "poll_interval_out_of_range_returns_error" "task_query_timeout_over_limit_returns_error"
  by (simp_all add: poll_interval_out_of_range_returns_error_def task_query_timeout_over_limit_returns_error_def
      fails_naming_def config_test_eval config_defaults display_names_field del: display_error.simps)

lemma config_accepting_tests:
  "defaults_are_applied_when_optional_vars_absent" "env_var_overrides_default"
  by (simp_all add: defaults_are_applied_when_optional_vars_absent_def env_var_overrides_default_def
      loads_def config_test_eval config_defaults)

section \<open>Errors\<close>

definition transient_variants_are_classified_correctly :: bool where
  "transient_variants_are_classified_correctly \<longleftrightarrow> is_transient (Transient RpcTimeout)"

definition non_transient_variants_are_classified_correctly :: bool where
  "non_transient_variants_are_classified_correctly \<longleftrightarrow>
     \<not> is_transient (NonTransient (ContractRejection ''bad call''))"

definition error_display_transient :: bool where
  "error_display_transient \<longleftrightarrow> sublist ''transient'' (display_error (Transient ConnectionReset))"

definition error_display_non_transient :: bool where
  "error_display_non_transient \<longleftrightarrow> sublist ''non-transient''
     (display_error (NonTransient (ConfigInvalid ''poll_interval'' ''out of range'')))"

definition connection_timeout_carries_duration :: bool where
  "connection_timeout_carries_duration \<longleftrightarrow>
     (let msg = display_transient (ConnectionTimeout 5) in sublist ''5s'' msg \<or> sublist ''timeout'' msg)"

definition io_error_wraps_correctly :: bool where
  "io_error_wraps_correctly \<longleftrightarrow> is_transient (Transient (Io BrokenPipe ''pipe''))"

lemma error_tests:
  "transient_variants_are_classified_correctly" "non_transient_variants_are_classified_correctly"
  "error_display_transient" "error_display_non_transient" "connection_timeout_carries_duration"
  "io_error_wraps_correctly"
  by (simp_all add: transient_variants_are_classified_correctly_def
      non_transient_variants_are_classified_correctly_def error_display_transient_def
      error_display_non_transient_def connection_timeout_carries_duration_def io_error_wraps_correctly_def
      duration_debug_def digit_char_def sublist_Cons_right)

section \<open>In-flight set\<close>

definition make_id :: "u8 \<Rightarrow> TaskId" where
  "make_id b = replicate 32 b"

definition insert_returns_true_for_new_entry :: bool where
  "insert_returns_true_for_new_entry \<longleftrightarrow> fst (insert_task (make_id 1) InFlightSet_new)"

definition insert_returns_false_for_duplicate :: bool where
  "insert_returns_false_for_duplicate \<longleftrightarrow>
     (let s = snd (insert_task (make_id 2) InFlightSet_new) in \<not> fst (insert_task (make_id 2) s))"

definition contains_reflects_membership :: bool where
  "contains_reflects_membership \<longleftrightarrow> \<not> contains_task (make_id 3) InFlightSet_new \<and>
     contains_task (make_id 3) (snd (insert_task (make_id 3) InFlightSet_new))"

definition remove_clears_entry :: bool where
  "remove_clears_entry \<longleftrightarrow>
     (let s = snd (insert_task (make_id 4) InFlightSet_new)
      in \<not> contains_task (make_id 4) (remove_task (make_id 4) s))"

definition len_tracks_correctly :: bool where
  "len_tracks_correctly \<longleftrightarrow> len_tasks InFlightSet_new = 0 \<and>
     (let s1 = snd (insert_task (make_id 5) InFlightSet_new); s2 = snd (insert_task (make_id 6) s1)
      in len_tasks s2 = 2 \<and> len_tasks (remove_task (make_id 5) s2) = 1)"

text \<open>Two handles: what is inserted through the first is seen through its clone.\<close>

definition clone_shares_state :: bool where
  "clone_shares_state \<longleftrightarrow>
     (let (set1, st) = set_new []; (set2, st) = set_clone set1 st; (_, st) = set_insert set1 (make_id 7) st
      in set_contains set2 (make_id 7) st)"

lemma make_id_eq: "make_id a = make_id b \<longleftrightarrow> a = b"
  by (simp add: make_id_def)

lemma in_flight_tests:
  "insert_returns_true_for_new_entry" "insert_returns_false_for_duplicate" "contains_reflects_membership"
  "remove_clears_entry" "len_tracks_correctly" "clone_shares_state"
  by (simp_all add: insert_returns_true_for_new_entry_def insert_returns_false_for_duplicate_def
      contains_reflects_membership_def remove_clears_entry_def len_tracks_correctly_def clone_shares_state_def
      insert_task_def contains_task_def remove_task_def len_tasks_def InFlightSet_new_def make_id_eq
      set_new_def set_clone_def set_insert_def set_contains_def fcard_finsert_if Let_def)

section \<open>Concurrent inserts\<close>

text \<open>Twenty spawned tasks, each with a clone of a new set, run to their end in any order.\<close>

definition concurrent_inserts_never_duplicate :: bool where
  "concurrent_inserts_never_duplicate \<longleftrightarrow>
     (let (h, st) = set_new []; (hs, st) = clones 20 h st
      in \<forall>ws st' k. (race_step hs (make_id 8))\<^sup>*\<^sup>* (replicate 20 NotStarted, st, 0) (ws, st', k) \<longrightarrow>
           set ws \<subseteq> {Counted} \<longrightarrow> k = 1 \<and> set_len h st' = 1)"

lemma concurrent_test: "concurrent_inserts_never_duplicate"
proof -
  have "k = 1 \<and> set_len 0 st' = 1"
    if run: "(race_step (replicate 20 0) (make_id 8))\<^sup>*\<^sup>* (replicate 20 NotStarted, [{||}], 0) (ws, st', k)"
      and fin: "set ws \<subseteq> {Counted}" for ws st' k
  proof -
    from run obtain m where m: "(race_step (replicate 20 0) (make_id 8) ^^ m) (replicate 20 NotStarted, [{||}], 0) (ws, st', k)"
      unfolding rtranclp_power by blast
    have "0 < length [{||} :: TaskId fset]" by simp
    from race_run [OF this m] fin race_over [of ws] have "m = 2 * 20" by (simp add: race_inv_def)
    with race_result [where h = 0 and st = "[{||}]" and tasks = 20 and i = "make_id 8" and m = m and ws = ws
        and st' = st' and k = k] m show ?thesis
      by (simp add: clones_share set_contains_def contains_task_def set_len_def len_tasks_def fcard_finsert_if)
  qed
  then show ?thesis
    by (simp add: concurrent_inserts_never_duplicate_def set_new_def clones_share InFlightSet_new_def)
qed

text \<open>All of them, in the order of the files.\<close>

definition engine_unit_tests :: "bool list" where
  "engine_unit_tests =
     [missing_keeper_keypair_returns_error, missing_rpc_url_returns_error,
      missing_anchor_address_returns_error, poll_interval_out_of_range_returns_error,
      task_query_timeout_over_limit_returns_error, defaults_are_applied_when_optional_vars_absent,
      env_var_overrides_default,
      transient_variants_are_classified_correctly, non_transient_variants_are_classified_correctly,
      error_display_transient, error_display_non_transient, connection_timeout_carries_duration,
      io_error_wraps_correctly,
      insert_returns_true_for_new_entry, insert_returns_false_for_duplicate,
      contains_reflects_membership, remove_clears_entry, len_tracks_correctly, clone_shares_state,
      concurrent_inserts_never_duplicate]"

lemma engine_unit_tests_hold: "list_all (\<lambda>test. test) engine_unit_tests"
  by (simp add: engine_unit_tests_def config_tests config_range_tests config_accepting_tests error_tests
      in_flight_tests concurrent_test)

end
