(* ===== verification/Spec2Isabelle.thy ===== *)
theory Spec2Isabelle
  imports Anchor_Properties Anchor_Protocol Anchor_Solvency Anchor_Tests Engine_Attempts Engine_Chain Engine_Runs Engine_Tests
begin

text \<open>
  Chronos keeper network: verification of the workspace's three Rust crates.

  \<^bold>\<open>The program.\<close> \<open>the-anchor\<close> is a Soroban contract that keeps a registry of staked keepers and a
  table of recurring tasks.  \<open>execute_drip_split\<close> runs a task: the ledger number relative to the
  task's schedule selects one of four regions (before, designated keeper only, 50 ledgers of grace
  in which any other registered keeper may step in and the designated one is slashed, open
  afterwards), the Drip List contract is called, the caller is paid from the contract's balance and
  the task is rescheduled.  \<open>the-engine\<close> is the off-chain daemon of one keeper: a poller watches the
  ledger, task discovery classifies the executable tasks, the grace monitor and the execution
  pipeline submit signed transactions with retries, an in-flight set prevents duplicates and a
  health endpoint reports.  \<open>chronos-types\<close> holds the records both sides share.

  \<^bold>\<open>Theories.\<close>
  \<^item> \<open>Chronos_Prelude\<close>: machine integers with the two overflow behaviours of Cargo's profiles, the
    result type of fallible stateful computations, decimal text.  \<open>Chronos_Types\<close>:
    \<open>chronos-types/src/lib.rs\<close>.
  \<^item> \<open>Anchor_Env\<close>: \<open>storage_keys.rs\<close>, \<open>errors.rs\<close>, the storage tiers, events, ledger number and
    authorisations of a call; the host (hash, token contract, cross-contract call) is the parameter
    record \<open>Host\<close>.  \<open>Anchor_Events\<close>, \<open>Anchor_Registry\<close>, \<open>Anchor_Tasks\<close>, \<open>Anchor_Slashing\<close>,
    \<open>Anchor_Execution\<close>: the modules of the same names, one definition per function, with an equation
    or an exact success condition for each on well-typed storage.  \<open>Anchor_Contract\<close>: \<open>lib.rs\<close>, the
    host's commit-or-revert of a call, the step relation of a deployed contract and its storage
    invariant.
  \<^item> \<open>Anchor_Invariants\<close> and \<open>Anchor_History\<close>: invariants of all reachable states (task identifiers,
    stakes, event log against books) and what histories keep (configuration, keepers, schedule),
    each an interpretation of the locale \<open>ledger_invariant\<close> or \<open>ledger_history\<close>.  \<open>Anchor_Replay\<close>:
    the registry and the task table rebuilt from the event log alone.  \<open>Anchor_Returns\<close>: when an
    execution returns, which panics are possible, what it pays; \<open>Anchor_Errors\<close>: the error table of
    every entry point.  \<open>Anchor_Sandbox\<close>: a concrete host and deployment.  \<open>Anchor_Rate\<close>: how often
    a task runs over a history, as a paced run read off the event log.  \<open>Anchor_Profiles\<close>: the dev
    and the release build of the contract, compared call by call; \<open>overflow_at\<close> says in which states
    a call overflows an integer, and \<open>exact_step\<close> and \<open>exact_reachable\<close> are the histories of either
    build without one.  \<open>Anchor_Solvency\<close>: what leaves the contract's balance over a history.
    \<open>Anchor_Properties\<close>: the contract's properties, each applied to the sandbox.  \<open>Anchor_Protocol\<close>:
    the protocol of \<open>docs/protocol-spec.md\<close> over unbounded numbers and the proof that the contract
    refines it.
  \<^item> \<open>Engine_Base\<close>: \<open>errors.rs\<close> with its display texts, the shared state behind the \<open>Arc\<close> handles,
    the log and the platform parameter; \<open>Engine_Config\<close>, \<open>Engine_InFlight\<close>, \<open>Engine_Rpc\<close>,
    \<open>Engine_Pipeline\<close>, \<open>Engine_Discovery\<close> (with \<open>grace_monitor.rs\<close>), \<open>Engine_Poller\<close>,
    \<open>Engine_Health\<close> (\<open>health_server.rs\<close>) and \<open>Engine_Main\<close> (start-up): the modules of the engine
    with their properties; \<open>Engine_Sandbox\<close>: a scripted network.  \<open>Engine_Attempts\<close>: the attempt
    protocol of one dispatch as a state machine over the reported events, which the pipeline
    refines.  \<open>Engine_Traffic\<close>: what the engine lets happen on the network, by composition over its
    computations (locale \<open>state_preorder\<close>).  \<open>Engine_Chain\<close>: the engine in front of a network that
    hosts the contract.  \<open>Engine_System\<close>: the running daemon, a step relation in which the spawned
    tasks, the rest of \<open>main\<close> and the network interleave over the shared state and the broadcast
    channel; \<open>Engine_Runs\<close>: what every run keeps, with the accounting of broadcast events, and a
    concrete run.
  \<^item> \<open>Anchor_Tests\<close> and \<open>Engine_Tests\<close>: the repository's integration tests and unit tests, run on the
    model (the lemmas \<open>integration_tests_hold\<close> and \<open>engine_unit_tests_hold\<close>), and the build script.
    They check the model against the code's own examples.  This theory joins both sides.

  \<^bold>\<open>How code maps to definitions.\<close> A function that can fail or change state is a computation over
  the state it sees: \<open>Env\<close> for a contract call, \<open>Engine\<close> for the daemon, the log alone for the
  configuration.  Its result is a value, a returned error or a panic, with the state reached; the
  host discards the state unless a value was returned, the engine keeps it.  Integers have their
  width; \<open>i128\<close> and \<open>i64\<close> are read signed.  \<open>+\<close>, \<open>-\<close> and \<open>*\<close> panic in the \<open>dev\<close> profile and wrap in
  the \<open>release\<close> profile, because the workspace manifest sets no \<open>overflow-checks\<close>, and the build
  that the README deploys is the release build.  A property either holds in both, or names its
  condition: the \<open>dev\<close> profile, a slash that fits (\<open>slash_exact\<close>), or an exact history, that is any
  history of a \<open>dev\<close> build or a release history in which no call overflows.  Strings are UTF-8
  bytes, durations whole seconds.  A dropped future is the reserved panic \<open>CANCELLED\<close>, caught by
  \<open>timeout_c\<close>.

  \<^bold>\<open>Fuel and bounds.\<close> The retry loop recurses on the attempts left, of which it has
  \<open>max_retries + 1\<close>, the number its range allows.  The confirmation loop is a partial function with
  a proof that it returns.  The poller never ends; its own theorem holds for every number of
  iterations below \<open>2^32\<close>, after which the error counter could overflow, and the theorems on the
  running daemon hold for runs of any length, the overflow included.

  \<^bold>\<open>What the properties show.\<close> For the contract: exact arbitration, effect and liveness of
  executions, slash arithmetic without loss as long as it fits an \<open>i128\<close>, exact payments with a
  SEP-41 token from the return of the Drip List call on and no spending beyond what the events
  announce, at most one run per interval over exact histories of any length, the outcomes of every
  call, fresh task identifiers, permanent ineligibility, immutable configuration, an event log from
  which registry and tasks can be rebuilt, no error or panic but the documented ones, builds that
  differ exactly in the states \<open>overflow_at\<close> lists, and refinement of the protocol.  For the engine:
  validated configuration, its precedence and its round trip through the environment, at most one
  attempt per task in flight, also through clones of the set, the retry schedule with its sleeps,
  events that follow the attempt protocol, a processing of found tasks that always returns and
  restores the in-flight set, strictly increasing ledger events, also at the receiving end of the
  channel and in every interleaving, with every event handled, reported as skipped or still pending,
  and the only ways in which its tasks end.  For both: the engine dispatches a task exactly when the
  contract admits its keeper; its retries are safe, because it posts only the signed executions of
  the tasks it found and the contract executes each at most once per interval however many of them
  arrive, along exact histories of the contract.

  \<^bold>\<open>The design document.\<close> The ten correctness properties of
  \<open>specs/chronos-keeper-network/design.md\<close>: 1 and 3 (slash formula and its conservation) are
  theorems here for slashes that fit their integers, 7 (second registration), 8 (in-flight set) and
  9 (bounded retries) without condition; 2, 4 and 6 (stakes, ineligibility, schedule) are theorems
  along exact histories, 4 for the compiled-in minimum; 5 (window arbitration) is one without the
  condition on when a secondary keeper registered, which the code does not keep; 10 (slashing a zero
  stake is no operation) does not hold, since the whole call fails.

  \<^bold>\<open>Not modelled.\<close> Storage rent and expiry, fees and resource limits of the host, contract upgrade,
  re-entrancy (the host forbids it), mutex poisoning, the interleaving of engine tasks inside one
  iteration of a component's loop (discovery awaits each dispatch in turn, so within the daemon no
  two dispatches overlap; \<open>Engine_InFlight\<close> treats callers that do; the engine's state holds the one
  set all clones of the handle share), the routing of HTTP requests by axum, the set-up and
  formatting of the log, response structs of \<open>rpc_client.rs\<close> that nothing uses, and the repository's
  scripts and container files.
\<close>

section \<open>Engine and contract agree\<close>

fun role_for :: "region \<Rightarrow> ExecutionRole" where
  "role_for DesignatedWindow = Designated"
| "role_for GracePeriod = Secondary"
| "role_for _ = PostGraceRole"

lemma classify_by_region:
  assumes wired: "wired c"
    and new: "\<not> contains_task (parse_task_id p (task_id_hex rt)) (in_flight s)"
    and room: "unat (rt_next_allowed_execution rt) + 50 < 2 ^ 32"
  shows "let r = region_of (rt_next_allowed_execution rt) current;
             me = td_keeper_address (discovery c)
         in if admitted r (me = rt_designated_keeper rt) True
            then \<exists>pre. classify_and_dispatch p (discovery c) rt current s =
                   dispatch p (pipeline c) rt (role_for r) (s\<lparr>log := log s @ pre\<rparr>) \<and> sends pre = 0
            else classify_and_dispatch p (discovery c) rt current s = (Ok (), s)"
proof (cases "region_of (rt_next_allowed_execution rt) current")
  case PreWindow
  with classify_eq [OF new room, of "discovery c" current] show ?thesis
    by (auto simp: region_of_def Let_def split: if_splits)
next
  case DesignatedWindow
  with classify_eq [OF new room, of "discovery c" current] wired show ?thesis
    by (auto simp: region_of_def Let_def wired_def split: if_splits intro!: exI [of _ "[]"])
next
  case GracePeriod
  then have "unat (rt_next_allowed_execution rt) < unat current"
    "unat current \<le> unat (rt_next_allowed_execution rt) + 50"
    by (auto simp: region_of_def split: if_splits)
  with classify_eq [OF new room, of "discovery c" current] evaluate_eq [OF new this, of "grace_monitor c"]
    wired GracePeriod show ?thesis
    by (auto simp: Let_def wired_def intro!: exI [of _ "[DispatchingAsSecondary _ _ _]"])
next
  case PostGrace
  with classify_eq [OF new room, of "discovery c" current] wired show ?thesis
    by (auto simp: region_of_def Let_def wired_def log_missed_def comp_simps split: if_splits
        intro!: exI [of _ "[MissedExecution _ _ _ _]"])
qed

text \<open>
  C4: the engine and the contract agree on who may execute when.  For a started engine whose
  keeper is registered and whose view of a task and of the ledger is the contract's, discovery hands
  the task to the pipeline, in the role of the region, exactly when the contract admits the keeper:
  then the contract refuses at most because it cannot pay or a stake is used up, and otherwise the engine does nothing
  and the contract would have refused the call.
\<close>
theorem engine_and_contract_agree:
  assumes "engine_main cfg keys n = Inr (c, s0)" and "reachable h e" and "task_at e tid = Some t"
    and "keeper_at e (td_keeper_address (discovery c)) \<noteq> None"
    and "auths e (td_keeper_address (discovery c))"
    and "rt_next_allowed_execution rt = next_allowed_execution t"
    and "rt_designated_keeper rt = designated_keeper t"
    and "unat (next_allowed_execution t) + 50 < 2 ^ 32"
    and "\<not> contains_task (parse_task_id p (task_id_hex rt)) (in_flight s)"
  shows "let me = td_keeper_address (discovery c);
             r = region_of (next_allowed_execution t) (sequence e);
             engine = classify_and_dispatch p (discovery c) rt (sequence e) s;
             contract = execute_drip_split h tid me e
         in if admitted r (me = designated_keeper t) True
            then (\<exists>pre. engine = dispatch p (pipeline c) rt (role_for r) (s\<lparr>log := log s @ pre\<rparr>)) \<and>
                 (\<forall>x. fst contract = Err x \<longrightarrow>
                    x \<in> {InsufficientRewardBalance, SlashOnZeroStake})
            else engine = (Ok (), s) \<and> contract = (Err (refusal r (me = designated_keeper t)), e)"
proof -
  have wired: "wired c" using started_is_wired [OF assms(1)] by blast
  note engine = classify_by_region [OF wired assms(9), of "sequence e"]
  from reachable_contract_inv [OF assms(2)] assms(3) obtain k where
    "keeper_at e (designated_keeper t) = Some k" by (auto simp: contract_inv_def tasks_ok_def)
  note contract = admitted_errors [OF reachable_contract_inv [OF assms(2)] assms(3,5) this, of h]
    refused_eq [OF reachable_storage [OF assms(2)] assms(3,5), of h]
  show ?thesis using engine contract assms(4,6-8) by (auto simp: Let_def)
qed

theorem engine_and_contract_agree_witness:
  "\<exists>c s0 pre. engine_main demo_process (demo_keys ''BOB'') (net (demo_engine [])) = Inr (c, s0) \<and>
     classify_and_dispatch (demo_platform Dev) (discovery c) (demo_task\<lparr>rt_designated_keeper := ''ALICE''\<rparr>) 310 s0 =
       dispatch (demo_platform Dev) (pipeline c) (demo_task\<lparr>rt_designated_keeper := ''ALICE''\<rparr>) Secondary
         (s0\<lparr>log := log s0 @ pre\<rparr>)"
proof -
  obtain c s0 where main: "engine_main demo_process (demo_keys ''BOB'') (net (demo_engine [])) = Inr (c, s0)"
    and me: "td_keeper_address (discovery c) = ''BOB''"
    using demo_main by blast
  have "in_flight s0 = {||}"
    using started_is_wired [OF main] by (auto simp: initial_engine_def InFlightSet_new_def)
  moreover have "rt_next_allowed_execution demo_task = 300" by (simp add: demo_task_def)
  ultimately show ?thesis
    using engine_and_contract_agree [OF main reachable_sandbox_at [of 310 Dev], of sandbox_task DRIPS
        "demo_task\<lparr>rt_designated_keeper := ''ALICE''\<rparr>" "demo_platform Dev" s0] me main
    by (auto simp: Let_def contains_task_def)
qed

end
